theory Spec2Isabelle
  imports Complex_Main "HOL-Library.Word"
begin

unbundle bit_operations_syntax

section \<open>Data model of the paint engine\<close>

text \<open>
  The engine of \<^verbatim>\<open>src/Core/PaintEngine.cpp\<close>. Every \<^verbatim>\<open>float\<close> and \<^verbatim>\<open>double\<close> of the
  source is a \<^typ>\<open>real\<close> here: arithmetic is exact, there is no rounding, no NaN and no
  infinity. C++ \<^verbatim>\<open>int\<close> indices are \<^typ>\<open>int\<close> where the source compares them with
  zero, and \<^typ>\<open>nat\<close> where they index a vector. A reading of the millisecond clock
  (\<^verbatim>\<open>juce::Time::getMillisecondCounterHiRes()\<close>) is an argument \<open>now\<close> of the
  operation that reads it.
\<close>

text \<open>\<^verbatim>\<open>juce::jlimit (lowerLimit, upperLimit, valueToConstrain)\<close>.\<close>

definition jlimit :: "real \<Rightarrow> real \<Rightarrow> real \<Rightarrow> real" where
  "jlimit lowerLimit upperLimit valueToConstrain =
     (if valueToConstrain < lowerLimit then lowerLimit
      else if upperLimit < valueToConstrain then upperLimit
      else valueToConstrain)"

text \<open>\<^verbatim>\<open>std::numeric_limits<float>::max()\<close>, the largest finite \<^verbatim>\<open>float\<close>.\<close>

definition FLT_MAX :: real where
  "FLT_MAX = 340282346638528859811704183484516925440"

datatype EnvelopePhase = Inactive | Attack | Sustain | Release

text \<open>
  \<^verbatim>\<open>EnhancedOscillatorState\<close>, one entry per oscillator slot. The fields are the ones
  \<^verbatim>\<open>PaintEngine.cpp\<close> reads and writes.
\<close>

record EnhancedOscillatorState =
  envelopePhase :: EnvelopePhase
  envelopeValue :: real
  targetFrequency :: real
  targetAmplitude :: real
  targetPan :: real
  lastUsedTime :: real
  inUse :: bool

text \<open>
  \<^verbatim>\<open>AudioParams\<close>. Its fields \<^verbatim>\<open>frequency\<close>, \<^verbatim>\<open>amplitude\<close>, \<^verbatim>\<open>pan\<close> and \<^verbatim>\<open>time\<close>
  carry the prefix \<open>param\<close>, since \<^verbatim>\<open>Oscillator\<close> has fields of the same names.
\<close>

record AudioParams =
  paramFrequency :: real
  paramAmplitude :: real
  paramPan :: real
  paramTime :: real

text \<open>
  \<^verbatim>\<open>Oscillator\<close>. Its \<^verbatim>\<open>targetAmplitude\<close> and \<^verbatim>\<open>targetPan\<close> carry the prefix \<open>osc\<close>,
  since \<^verbatim>\<open>EnhancedOscillatorState\<close> has fields of the same names.
\<close>

record Oscillator =
  frequency :: real
  amplitude :: real
  oscTargetAmplitude :: real
  pan :: real
  oscTargetPan :: real
  phase :: real
  phaseIncrement :: real

text \<open>
  \<^verbatim>\<open>StrokePoint\<close>. The \<^verbatim>\<open>juce::Colour\<close> of a point is represented by the two
  observations the engine makes of it: whether it equals
  \<^verbatim>\<open>juce::Colours::transparentBlack\<close>, and its hue.
\<close>

record StrokePoint =
  position :: "real \<times> real"
  pressure :: real
  colorIsTransparentBlack :: bool
  colorHue :: real

record Stroke =
  strokeId :: "32 word"
  points :: "StrokePoint list"
  isFinalized :: bool

record CanvasRegion =
  regionX :: "32 word"
  regionY :: "32 word"
  strokes :: "Stroke list"

text \<open>
  \<^verbatim>\<open>juce::SmoothedValue<float>\<close> with linear smoothing, as far as the engine uses it:
  \<^verbatim>\<open>reset\<close>, \<^verbatim>\<open>setCurrentAndTargetValue\<close>, \<^verbatim>\<open>setTargetValue\<close> and \<^verbatim>\<open>getNextValue\<close>.
\<close>

record SmoothedValue =
  currentValue :: real
  targetValue :: real
  step :: real
  countdown :: nat
  stepsToTarget :: nat

text \<open>
  What \<^verbatim>\<open>PaintEngine.cpp\<close> takes from \<^verbatim>\<open>PaintEngine.h\<close>, which is not among the
  sources: the constants \<^verbatim>\<open>MAX_OSCILLATORS\<close>, \<^verbatim>\<open>INFLUENCE_RADIUS\<close> and
  \<^verbatim>\<open>CanvasRegion::REGION_SIZE\<close>, the default argument of
  \<^verbatim>\<open>Oscillator::smoothParameters\<close>, the value of a default-constructed
  \<^verbatim>\<open>Oscillator{}\<close>, the predicate \<^verbatim>\<open>Oscillator::isActive\<close>, the three numbers
  that shape the envelope, and the default colour argument of \<^verbatim>\<open>beginStroke\<close> (by
  the two observations the engine makes of a colour). They are parameters of the model.
\<close>

record Header =
  MAX_OSCILLATORS :: nat
  INFLUENCE_RADIUS :: real
  REGION_SIZE :: real
  smoothingFactorDefault :: real
  defaultOscillator :: Oscillator
  oscillatorIsActive :: "Oscillator \<Rightarrow> bool"
  attackRate :: real
  releaseRate :: real
  reclaimEpsilon :: real
  defaultColorIsTransparentBlack :: bool
  defaultColorHue :: real

text \<open>
  The members of \<^verbatim>\<open>PaintEngine\<close> that the modelled functions use. The spatial grid
  (declared in the header) and the CPU load (wall-clock time) are left out: no modelled
  function reads them. \<^verbatim>\<open>blockCounter\<close> is the function-local static of
  \<^verbatim>\<open>processBlock\<close>. The atomic flag \<^verbatim>\<open>isActive\<close> is named \<open>engineIsActive\<close>, the
  name \<open>isActive\<close> being the method of the oscillator state.
\<close>

record PaintEngine =
  oscillatorPools :: "Oscillator list list"
  oscillatorStates :: "EnhancedOscillatorState list"
  freeOscillatorIndices :: "int list"
  frontBufferIndex :: nat
  backBufferIndex :: nat
  bufferSwapPending :: bool
  activeOscillators :: int
  currentStroke :: "Stroke option"
  canvasRegions :: "64 word \<rightharpoonup> CanvasRegion"
  nextStrokeId :: "32 word"
  minFrequency :: real
  maxFrequency :: real
  canvasLeft :: real
  canvasRight :: real
  canvasBottom :: real
  canvasTop :: real
  useLogFrequencyScale :: bool
  usePanning :: bool
  engineIsActive :: bool
  sampleRate :: real
  samplesPerBlock :: int
  masterGain :: SmoothedValue
  playheadPosition :: real
  blockCounter :: int

section \<open>The oscillator state and the oscillator\<close>

text \<open>
  Modelled from the spec: the inline methods of \<^verbatim>\<open>EnhancedOscillatorState\<close>
  (\<^verbatim>\<open>isActive\<close>, \<^verbatim>\<open>activate\<close>, \<^verbatim>\<open>release\<close>, \<^verbatim>\<open>updateEnvelope\<close>) and its default
  value are declared in \<^verbatim>\<open>PaintEngine.h\<close>, which is not among the sources. The spec:
  a slot is active when its envelope phase is Attack, Sustain or Release, that is, not
  Inactive.
\<close>

definition isActive :: "EnhancedOscillatorState \<Rightarrow> bool" where
  "isActive st = (envelopePhase st \<noteq> Inactive)"

text \<open>
  Modelled from the spec: \<^verbatim>\<open>EnhancedOscillatorState::activate\<close> (header missing)
  marks the slot in use and starts the envelope at Attack.
\<close>

definition activate :: "EnhancedOscillatorState \<Rightarrow> EnhancedOscillatorState" where
  "activate st = st\<lparr>envelopePhase := Attack, inUse := True\<rparr>"

text \<open>
  Modelled from the spec: \<^verbatim>\<open>EnhancedOscillatorState::release\<close> (header missing)
  transitions the envelope to Release.
\<close>

definition release :: "EnhancedOscillatorState \<Rightarrow> EnhancedOscillatorState" where
  "release st = st\<lparr>envelopePhase := Release\<rparr>"

text \<open>
  Modelled from the spec: \<^verbatim>\<open>EnhancedOscillatorState::updateEnvelope\<close> (header
  missing) advances the envelope value by one sample step, of a magnitude scaled by the
  sample rate. Attack rises until the value reaches 1 and becomes Sustain; Release
  decays, and once the value is at or below the reclaim epsilon it is cleared and the
  phase becomes Inactive. The rates and the epsilon are parameters.
\<close>

definition updateEnvelope :: "Header \<Rightarrow> real \<Rightarrow> EnhancedOscillatorState \<Rightarrow> EnhancedOscillatorState" where
  "updateEnvelope K sr st =
     (case envelopePhase st of
        Attack \<Rightarrow>
          (let v = envelopeValue st + attackRate K / sr
           in if 1 \<le> v then st\<lparr>envelopePhase := Sustain, envelopeValue := 1\<rparr>
              else st\<lparr>envelopeValue := v\<rparr>)
      | Sustain \<Rightarrow> st
      | Release \<Rightarrow>
          (let v = envelopeValue st - releaseRate K / sr
           in if v \<le> reclaimEpsilon K then st\<lparr>envelopePhase := Inactive, envelopeValue := 0\<rparr>
              else st\<lparr>envelopeValue := v\<rparr>)
      | Inactive \<Rightarrow> st)"

text \<open>
  Modelled from the spec: the default-constructed \<^verbatim>\<open>EnhancedOscillatorState\<close> (header
  missing) is Inactive and not in use. The spec gives no default for the numeric fields;
  they are zero here and no theorem below depends on them.
\<close>

definition defaultOscillatorState :: EnhancedOscillatorState where
  "defaultOscillatorState =
     \<lparr>envelopePhase = Inactive, envelopeValue = 0, targetFrequency = 0, targetAmplitude = 0,
      targetPan = 0, lastUsedTime = 0, inUse = False\<rparr>"

text \<open>\<^verbatim>\<open>Oscillator::setParameters\<close>.\<close>

definition setParameters :: "AudioParams \<Rightarrow> Oscillator \<Rightarrow> Oscillator" where
  "setParameters params osc =
     osc\<lparr>frequency := paramFrequency params,
         oscTargetAmplitude := jlimit 0 1 (paramAmplitude params),
         oscTargetPan := jlimit 0 1 (paramPan params)\<rparr>"

text \<open>
  \<^verbatim>\<open>Oscillator::updatePhase\<close>: the phase advances and wraps to \<open>[0, 1)\<close>. At a sample
  rate of zero the source divides by zero; the model agrees with it at a sample rate
  other than zero, and the properties below about rendered samples are stated for a
  positive sample rate.
\<close>

definition updatePhase :: "real \<Rightarrow> Oscillator \<Rightarrow> Oscillator" where
  "updatePhase sr osc =
     (let inc = frequency osc / sr;
          ph = phase osc + inc
      in osc\<lparr>phaseIncrement := inc,
             phase := (if 1 \<le> ph then ph - of_int \<lfloor>ph\<rfloor> else ph)\<rparr>)"

text \<open>\<^verbatim>\<open>Oscillator::getSample\<close>.\<close>

definition getSample :: "Oscillator \<Rightarrow> real" where
  "getSample osc = sin (phase osc * (2 * pi)) * amplitude osc"

text \<open>\<^verbatim>\<open>Oscillator::smoothParameters\<close>.\<close>

definition smoothParameters :: "real \<Rightarrow> Oscillator \<Rightarrow> Oscillator" where
  "smoothParameters smoothingFactor osc =
     osc\<lparr>amplitude := amplitude osc + (oscTargetAmplitude osc - amplitude osc) * (smoothingFactor * 2),
         pan := pan osc + (oscTargetPan osc - pan osc) * (smoothingFactor * 1)\<rparr>"

text \<open>
  Modelled from the spec: \<^verbatim>\<open>Oscillator::reset\<close> (header missing) resets the
  oscillator to its defaults.
\<close>

definition resetOscillator :: "Header \<Rightarrow> Oscillator \<Rightarrow> Oscillator" where
  "resetOscillator K osc = defaultOscillator K"

section \<open>The smoothed master gain\<close>

definition smoothedReset :: "real \<Rightarrow> real \<Rightarrow> SmoothedValue \<Rightarrow> SmoothedValue" where
  "smoothedReset sr rampLengthInSeconds v =
     v\<lparr>stepsToTarget := nat \<lfloor>rampLengthInSeconds * sr\<rfloor>, currentValue := targetValue v, countdown := 0\<rparr>"

definition setCurrentAndTargetValue :: "real \<Rightarrow> SmoothedValue \<Rightarrow> SmoothedValue" where
  "setCurrentAndTargetValue x v = v\<lparr>currentValue := x, targetValue := x, countdown := 0\<rparr>"

definition setTargetValue :: "real \<Rightarrow> SmoothedValue \<Rightarrow> SmoothedValue" where
  "setTargetValue x v =
     (if x = targetValue v then v
      else if stepsToTarget v = 0 then setCurrentAndTargetValue x v
      else v\<lparr>targetValue := x, countdown := stepsToTarget v,
             step := (x - currentValue v) / real (stepsToTarget v)\<rparr>)"

definition getNextValue :: "SmoothedValue \<Rightarrow> real \<times> SmoothedValue" where
  "getNextValue v =
     (if countdown v = 0 then (targetValue v, v)
      else let c = countdown v - 1;
               x = (if 0 < c then currentValue v + step v else targetValue v)
           in (x, v\<lparr>countdown := c, currentValue := x\<rparr>))"

section \<open>Buffers, configuration and construction\<close>

definition getFrontBuffer :: "PaintEngine \<Rightarrow> Oscillator list" where
  "getFrontBuffer s = oscillatorPools s ! frontBufferIndex s"

definition getBackBuffer :: "PaintEngine \<Rightarrow> Oscillator list" where
  "getBackBuffer s = oscillatorPools s ! backBufferIndex s"

text \<open>Writing through the reference that \<^verbatim>\<open>getFrontBuffer()\<close> or \<^verbatim>\<open>getBackBuffer()\<close> returns.\<close>

definition setFrontBuffer :: "Oscillator list \<Rightarrow> PaintEngine \<Rightarrow> PaintEngine" where
  "setFrontBuffer pool s = s\<lparr>oscillatorPools := (oscillatorPools s)[frontBufferIndex s := pool]\<rparr>"

definition setBackBuffer :: "Oscillator list \<Rightarrow> PaintEngine \<Rightarrow> PaintEngine" where
  "setBackBuffer pool s = s\<lparr>oscillatorPools := (oscillatorPools s)[backBufferIndex s := pool]\<rparr>"

text \<open>\<^verbatim>\<open>PaintEngine::swapBuffersIfPending\<close>.\<close>

definition swapBuffersIfPending :: "PaintEngine \<Rightarrow> PaintEngine" where
  "swapBuffersIfPending s =
     (if bufferSwapPending s
      then let currentFront = frontBufferIndex s;
               currentBack = backBufferIndex s
           in s\<lparr>frontBufferIndex := currentBack, backBufferIndex := currentFront,
                bufferSwapPending := False\<rparr>
      else s)"

text \<open>
  \<^verbatim>\<open>PaintEngine::requestBufferSwap\<close>: the compare-and-exchange sets the flag when it
  is clear and leaves it set otherwise.
\<close>

definition requestBufferSwap :: "PaintEngine \<Rightarrow> PaintEngine" where
  "requestBufferSwap s = (if bufferSwapPending s = False then s\<lparr>bufferSwapPending := True\<rparr> else s)"

text \<open>\<^verbatim>\<open>PaintEngine::setFrequencyRange\<close>.\<close>

definition setFrequencyRange :: "real \<Rightarrow> real \<Rightarrow> PaintEngine \<Rightarrow> PaintEngine" where
  "setFrequencyRange minHz maxHz s =
     (let mn = jlimit 1 20000 minHz
      in s\<lparr>minFrequency := mn, maxFrequency := jlimit (mn + 1) 22000 maxHz\<rparr>)"

text \<open>\<^verbatim>\<open>PaintEngine::setCanvasRegion\<close>.\<close>

definition setCanvasRegion :: "real \<Rightarrow> real \<Rightarrow> real \<Rightarrow> real \<Rightarrow> PaintEngine \<Rightarrow> PaintEngine" where
  "setCanvasRegion leftX rightX bottomY topY s =
     s\<lparr>canvasLeft := leftX, canvasRight := rightX, canvasBottom := bottomY, canvasTop := topY\<rparr>"

text \<open>\<^verbatim>\<open>PaintEngine::setMasterGain\<close> and \<^verbatim>\<open>PaintEngine::setPlayheadPosition\<close>.\<close>

definition setMasterGain :: "real \<Rightarrow> PaintEngine \<Rightarrow> PaintEngine" where
  "setMasterGain gain s = s\<lparr>masterGain := setTargetValue (jlimit 0 2 gain) (masterGain s)\<rparr>"

definition setPlayheadPosition :: "real \<Rightarrow> PaintEngine \<Rightarrow> PaintEngine" where
  "setPlayheadPosition normalisedPosition s = s\<lparr>playheadPosition := jlimit 0 1 normalisedPosition\<rparr>"

text \<open>
  The constructor \<^verbatim>\<open>PaintEngine::PaintEngine\<close>: both pools and the state vector are
  resized to \<^verbatim>\<open>MAX_OSCILLATORS\<close> default elements, every index is pushed on the free
  list in increasing order, and the frequency range and the canvas region are set.
  Modelled from the spec: the member initialisers of \<^verbatim>\<open>PaintEngine.h\<close> are not among
  the sources. The front buffer is pool 0 and the back buffer pool 1, no swap is pending,
  the frequency scale is logarithmic, panning is on, and the remaining members start at
  zero, empty or off.
\<close>

definition PaintEngine_init :: "Header \<Rightarrow> PaintEngine" where
  "PaintEngine_init K =
     setCanvasRegion (- 100) 100 (- 50) 50
       (setFrequencyRange 20 20000
         \<lparr>oscillatorPools = [replicate (MAX_OSCILLATORS K) (defaultOscillator K),
                             replicate (MAX_OSCILLATORS K) (defaultOscillator K)],
          oscillatorStates = replicate (MAX_OSCILLATORS K) defaultOscillatorState,
          freeOscillatorIndices = map int [0..<MAX_OSCILLATORS K],
          frontBufferIndex = 0,
          backBufferIndex = 1,
          bufferSwapPending = False,
          activeOscillators = 0,
          currentStroke = None,
          canvasRegions = Map.empty,
          nextStrokeId = 0,
          minFrequency = 0,
          maxFrequency = 0,
          canvasLeft = 0,
          canvasRight = 0,
          canvasBottom = 0,
          canvasTop = 0,
          useLogFrequencyScale = True,
          usePanning = True,
          engineIsActive = False,
          sampleRate = 0,
          samplesPerBlock = 0,
          masterGain = \<lparr>currentValue = 0, targetValue = 0, step = 0, countdown = 0, stepsToTarget = 0\<rparr>,
          playheadPosition = 0,
          blockCounter = 0\<rparr>)"

text \<open>
  \<^verbatim>\<open>PaintEngine::prepareToPlay\<close>: the sample rate and the block size are stored, the
  master gain is reset to 0.7 with a ramp of 10 ms, every oscillator of both pools is
  assigned \<^verbatim>\<open>Oscillator{}\<close>, and the active count is stored as zero.
\<close>

definition prepareToPlay :: "Header \<Rightarrow> real \<Rightarrow> int \<Rightarrow> PaintEngine \<Rightarrow> PaintEngine" where
  "prepareToPlay K sr samplesPerBlock' s =
     s\<lparr>sampleRate := sr,
       samplesPerBlock := samplesPerBlock',
       masterGain := setCurrentAndTargetValue (7 / 10) (smoothedReset sr (1 / 100) (masterGain s)),
       oscillatorPools := map (map (\<lambda>osc. defaultOscillator K)) (oscillatorPools s),
       activeOscillators := 0\<rparr>"

text \<open>\<^verbatim>\<open>PaintEngine::releaseResources\<close>.\<close>

definition releaseResources :: "Header \<Rightarrow> PaintEngine \<Rightarrow> PaintEngine" where
  "releaseResources K s =
     s\<lparr>currentStroke := None,
       canvasRegions := Map.empty,
       oscillatorPools := map (map (\<lambda>osc. defaultOscillator K)) (oscillatorPools s),
       activeOscillators := 0\<rparr>"

text \<open>
  \<^verbatim>\<open>PaintEngine::clearCanvas\<close>: the current stroke and the regions are dropped, every
  oscillator of the back buffer is reset, the active count is stored as zero and a
  buffer swap is requested.
\<close>

definition clearCanvas :: "Header \<Rightarrow> PaintEngine \<Rightarrow> PaintEngine" where
  "clearCanvas K s =
     requestBufferSwap
       ((setBackBuffer (map (resetOscillator K) (getBackBuffer s))
          (s\<lparr>currentStroke := None, canvasRegions := Map.empty\<rparr>))
        \<lparr>activeOscillators := 0\<rparr>)"

section \<open>Coordinate mapping\<close>

text \<open>
  \<^verbatim>\<open>PaintEngine::canvasYToFrequency\<close>. On a canvas of height zero the source divides
  by zero; the model agrees with it on a canvas whose top and bottom differ, and the
  properties below are stated for such a canvas.
\<close>

definition canvasYToFrequency :: "PaintEngine \<Rightarrow> real \<Rightarrow> real" where
  "canvasYToFrequency s y =
     (let normalizedY = (y - canvasBottom s) / (canvasTop s - canvasBottom s);
          clampedY = jlimit 0 1 normalizedY
      in if useLogFrequencyScale s
         then let logMin = ln (minFrequency s);
                  logMax = ln (maxFrequency s)
              in exp (logMin + clampedY * (logMax - logMin))
         else minFrequency s + clampedY * (maxFrequency s - minFrequency s))"

text \<open>\<^verbatim>\<open>PaintEngine::frequencyToCanvasY\<close>.\<close>

definition frequencyToCanvasY :: "PaintEngine \<Rightarrow> real \<Rightarrow> real" where
  "frequencyToCanvasY s freq =
     (let clampedFreq = jlimit (minFrequency s) (maxFrequency s) freq;
          normalizedY =
            (if useLogFrequencyScale s
             then let logMin = ln (minFrequency s);
                      logMax = ln (maxFrequency s);
                      logFreq = ln clampedFreq
                  in (logFreq - logMin) / (logMax - logMin)
             else (clampedFreq - minFrequency s) / (maxFrequency s - minFrequency s))
      in canvasBottom s + normalizedY * (canvasTop s - canvasBottom s))"

text \<open>\<^verbatim>\<open>PaintEngine::canvasXToTime\<close> and \<^verbatim>\<open>PaintEngine::timeToCanvasX\<close>.\<close>

definition canvasXToTime :: "PaintEngine \<Rightarrow> real \<Rightarrow> real" where
  "canvasXToTime s x = jlimit 0 1 ((x - canvasLeft s) / (canvasRight s - canvasLeft s))"

definition timeToCanvasX :: "PaintEngine \<Rightarrow> real \<Rightarrow> real" where
  "timeToCanvasX s t = canvasLeft s + jlimit 0 1 t * (canvasRight s - canvasLeft s)"

text \<open>\<^verbatim>\<open>PaintEngine::strokePointToAudioParams\<close>.\<close>

definition strokePointToAudioParams :: "PaintEngine \<Rightarrow> StrokePoint \<Rightarrow> AudioParams" where
  "strokePointToAudioParams s point =
     \<lparr>paramFrequency = canvasYToFrequency s (snd (position point)),
      paramAmplitude = pressure point,
      paramPan = (if \<not> colorIsTransparentBlack point then colorHue point else 1 / 2),
      paramTime = canvasXToTime s (fst (position point))\<rparr>"

section \<open>Canvas regions\<close>

text \<open>
  \<^verbatim>\<open>PaintEngine::getRegionKey\<close>: both 32-bit coordinates are converted to a signed
  64-bit integer (sign extension), the first is shifted left by 32 bits and the two are
  combined with a bitwise or.
\<close>

definition getRegionKey :: "32 word \<Rightarrow> 32 word \<Rightarrow> 64 word" where
  "getRegionKey rx ry = (push_bit 32 (scast rx :: 64 word)) OR (scast ry :: 64 word)"

text \<open>
  \<^verbatim>\<open>PaintEngine::getOrCreateRegion\<close>. The returned pointer is the key of the map
  entry it points to. The conversion of the floored quotient to \<^verbatim>\<open>int\<close> keeps the low
  32 bits.
\<close>

definition getOrCreateRegion :: "Header \<Rightarrow> real \<Rightarrow> real \<Rightarrow> PaintEngine \<Rightarrow> 64 word \<times> PaintEngine" where
  "getOrCreateRegion K canvasX canvasY s =
     (let rx = (word_of_int \<lfloor>canvasX / REGION_SIZE K\<rfloor> :: 32 word);
          ry = (word_of_int \<lfloor>canvasY / REGION_SIZE K\<rfloor> :: 32 word);
          key = getRegionKey rx ry
      in case canvasRegions s key of
           Some region \<Rightarrow> (key, s)
         | None \<Rightarrow> (key, s\<lparr>canvasRegions := (canvasRegions s)(key \<mapsto> \<lparr>regionX = rx, regionY = ry, strokes = []\<rparr>)\<rparr>))"

section \<open>Strokes\<close>

text \<open>
  \<^verbatim>\<open>PaintEngine::endStroke\<close>: the stroke is finalized and added to the region of its
  first point (the loop over the points leaves at the first region, and
  \<^verbatim>\<open>getOrCreateRegion\<close> never returns null).
\<close>

definition endStroke :: "Header \<Rightarrow> PaintEngine \<Rightarrow> PaintEngine" where
  "endStroke K s =
     (case currentStroke s of
        None \<Rightarrow> s
      | Some stroke \<Rightarrow>
          (let stroke' = stroke\<lparr>isFinalized := True\<rparr>
           in case points stroke' of
                [] \<Rightarrow> s\<lparr>currentStroke := None\<rparr>
              | point # rest \<Rightarrow>
                  (let (key, s1) = getOrCreateRegion K (fst (position point)) (snd (position point)) s
                   in s1\<lparr>canvasRegions :=
                           (canvasRegions s1)(key := map_option (\<lambda>r. r\<lparr>strokes := strokes r @ [stroke']\<rparr>)
                                                       (canvasRegions s1 key)),
                         currentStroke := None\<rparr>)))"

text \<open>\<^verbatim>\<open>PaintEngine::beginStroke\<close>.\<close>

definition beginStroke :: "Header \<Rightarrow> StrokePoint \<Rightarrow> PaintEngine \<Rightarrow> PaintEngine" where
  "beginStroke K point s =
     (let s1 = (if currentStroke s \<noteq> None then endStroke K s else s)
      in s1\<lparr>currentStroke := Some \<lparr>strokeId = nextStrokeId s1, points = [point], isFinalized = False\<rparr>,
            nextStrokeId := nextStrokeId s1 + 1\<rparr>)"

section \<open>The oscillator pool\<close>

text \<open>
  The loop of \<^verbatim>\<open>PaintEngine::findBestOscillatorForReplacement\<close> from slot \<open>i\<close> on,
  with the \<^verbatim>\<open>oldestIndex\<close> and \<^verbatim>\<open>oldestTime\<close> found so far.
\<close>

function findBestLoop :: "nat \<Rightarrow> EnhancedOscillatorState list \<Rightarrow> nat \<Rightarrow> int \<Rightarrow> real \<Rightarrow> int" where
  "findBestLoop n states i oldestIndex oldestTime =
     (if i < n
      then let state = states ! i
           in if envelopePhase state = Release \<or> envelopePhase state = Inactive
              then int i
              else if lastUsedTime state < oldestTime
                   then findBestLoop n states (Suc i) (int i) (lastUsedTime state)
                   else findBestLoop n states (Suc i) oldestIndex oldestTime
      else oldestIndex)"
  by pat_completeness auto
termination
  by (relation "measure (\<lambda>(n, states, i, oldestIndex, oldestTime). n - i)") auto

definition findBestOscillatorForReplacement :: "Header \<Rightarrow> PaintEngine \<Rightarrow> int" where
  "findBestOscillatorForReplacement K s =
     findBestLoop (MAX_OSCILLATORS K) (oscillatorStates s) 0 (- 1) FLT_MAX"

text \<open>
  \<^verbatim>\<open>PaintEngine::allocateOscillator\<close>: \<^verbatim>\<open>back()\<close> and \<^verbatim>\<open>pop_back()\<close> take the last
  element of the free list.
\<close>

definition allocateOscillator :: "Header \<Rightarrow> PaintEngine \<Rightarrow> int \<times> PaintEngine" where
  "allocateOscillator K s =
     (if freeOscillatorIndices s \<noteq> []
      then (last (freeOscillatorIndices s),
            s\<lparr>freeOscillatorIndices := butlast (freeOscillatorIndices s)\<rparr>)
      else (findBestOscillatorForReplacement K s, s))"

text \<open>\<^verbatim>\<open>PaintEngine::activateOscillator\<close>.\<close>

definition activateOscillator :: "Header \<Rightarrow> real \<Rightarrow> int \<Rightarrow> AudioParams \<Rightarrow> PaintEngine \<Rightarrow> PaintEngine" where
  "activateOscillator K now index params s =
     (if index < 0 \<or> index \<ge> int (MAX_OSCILLATORS K) then s
      else let i = nat index;
               state = activate (oscillatorStates s ! i);
               state' = state\<lparr>targetFrequency := paramFrequency params,
                              targetAmplitude := paramAmplitude params,
                              targetPan := paramPan params,
                              lastUsedTime := now\<rparr>;
               s1 = s\<lparr>oscillatorStates := (oscillatorStates s)[i := state']\<rparr>
           in setBackBuffer ((getBackBuffer s1)[i := setParameters params (getBackBuffer s1 ! i)]) s1)"

text \<open>\<^verbatim>\<open>PaintEngine::releaseOscillator\<close>.\<close>

definition releaseOscillator :: "Header \<Rightarrow> int \<Rightarrow> PaintEngine \<Rightarrow> PaintEngine" where
  "releaseOscillator K index s =
     (if index < 0 \<or> index \<ge> int (MAX_OSCILLATORS K) then s
      else let i = nat index
           in s\<lparr>oscillatorStates := (oscillatorStates s)[i := release (oscillatorStates s ! i)]\<rparr>)"

text \<open>\<^verbatim>\<open>PaintEngine::calculateDistance\<close>.\<close>

definition calculateDistance :: "PaintEngine \<Rightarrow> nat \<Rightarrow> real \<times> real \<Rightarrow> real" where
  "calculateDistance s oscillatorIndex pos =
     (let oscY = frequencyToCanvasY s (targetFrequency (oscillatorStates s ! oscillatorIndex));
          dx = fst pos;
          dy = snd pos - oscY
      in sqrt (dx * dx + dy * dy))"

text \<open>\<^verbatim>\<open>PaintEngine::calculateInfluence\<close>.\<close>

definition calculateInfluence :: "Header \<Rightarrow> real \<Rightarrow> real \<Rightarrow> real" where
  "calculateInfluence K distance pressure' =
     (let normalizedDistance = distance / INFLUENCE_RADIUS K;
          influence = pressure' * exp (- normalizedDistance * normalizedDistance)
      in jlimit 0 1 influence)"

text \<open>\<^verbatim>\<open>PaintEngine::updateOscillatorWithInfluence\<close>.\<close>

definition updateOscillatorWithInfluence ::
    "Header \<Rightarrow> real \<Rightarrow> int \<Rightarrow> StrokePoint \<Rightarrow> AudioParams \<Rightarrow> PaintEngine \<Rightarrow> PaintEngine" where
  "updateOscillatorWithInfluence K now oscillatorIndex newPoint params s =
     (if oscillatorIndex < 0 \<or> oscillatorIndex \<ge> int (MAX_OSCILLATORS K) then s
      else let i = nat oscillatorIndex;
               state = oscillatorStates s ! i
           in if \<not> isActive state then s
              else let distance = calculateDistance s i (position newPoint);
                       influence = calculateInfluence K distance (pressure newPoint)
                   in if influence < 1 / 100 then s
                      else let f = jlimit 20 20000
                                     (targetFrequency state * (1 - influence) + paramFrequency params * influence);
                               a = jlimit 0 1
                                     (targetAmplitude state * (1 - influence) + paramAmplitude params * influence);
                               p = jlimit 0 1
                                     (targetPan state * (1 - influence) + paramPan params * influence);
                               blendedParams = \<lparr>paramFrequency = f, paramAmplitude = a, paramPan = p,
                                                paramTime = 0\<rparr>;
                               s1 = setBackBuffer
                                      ((getBackBuffer s)[i := setParameters blendedParams (getBackBuffer s ! i)]) s
                           in s1\<lparr>oscillatorStates :=
                                   (oscillatorStates s1)[i := state\<lparr>targetFrequency := f, targetAmplitude := a,
                                                                    targetPan := p, lastUsedTime := now\<rparr>]\<rparr>)"

text \<open>\<^verbatim>\<open>PaintEngine::shouldAllocateNewOscillator\<close>.\<close>

definition shouldAllocateNewOscillator :: "PaintEngine \<Rightarrow> StrokePoint \<Rightarrow> bool" where
  "shouldAllocateNewOscillator s newPoint =
     ((pressure newPoint > 1 / 10 \<and> freeOscillatorIndices s \<noteq> []) \<or> pressure newPoint > 1 / 2)"

text \<open>
  \<^verbatim>\<open>PaintEngine::updateOscillatorsIncremental\<close>. The spatial grid is declared in the
  missing header: the list \<open>nearbyOscillators\<close> that its query returns is an argument,
  and the assignment of the new oscillator to a grid cell is left out.
\<close>

definition updateOscillatorsIncremental ::
    "Header \<Rightarrow> real \<Rightarrow> int list \<Rightarrow> StrokePoint \<Rightarrow> PaintEngine \<Rightarrow> PaintEngine" where
  "updateOscillatorsIncremental K now nearbyOscillators newPoint s =
     (let params = strokePointToAudioParams s newPoint
      in if nearbyOscillators = [] \<or> shouldAllocateNewOscillator s newPoint
         then let (oscillatorIndex, s1) = allocateOscillator K s
              in if oscillatorIndex \<ge> 0 then activateOscillator K now oscillatorIndex params s1 else s1
         else fold (\<lambda>oscIndex. updateOscillatorWithInfluence K now oscIndex newPoint params)
                nearbyOscillators s)"

text \<open>
  \<^verbatim>\<open>PaintEngine::updateStroke\<close>. Without a current stroke it begins one, with the
  default colour of \<^verbatim>\<open>beginStroke\<close>, and returns. Otherwise the point is added with
  the colour \<^verbatim>\<open>juce::Colours::white\<close> (not transparent black, hue 0) and the
  oscillators are updated.
\<close>

definition updateStroke ::
    "Header \<Rightarrow> real \<Rightarrow> int list \<Rightarrow> real \<times> real \<Rightarrow> real \<Rightarrow> PaintEngine \<Rightarrow> PaintEngine" where
  "updateStroke K now nearbyOscillators pos pressure' s =
     (case currentStroke s of
        None \<Rightarrow>
          beginStroke K \<lparr>position = pos, pressure = pressure',
                        colorIsTransparentBlack = defaultColorIsTransparentBlack K,
                        colorHue = defaultColorHue K\<rparr> s
      | Some stroke \<Rightarrow>
          (let point = \<lparr>position = pos, pressure = pressure', colorIsTransparentBlack = False, colorHue = 0\<rparr>;
               s1 = s\<lparr>currentStroke := Some (stroke\<lparr>points := points stroke @ [point]\<rparr>)\<rparr>
           in updateOscillatorsIncremental K now nearbyOscillators point s1))"

section \<open>The render loop\<close>

text \<open>
  The body of the loop over the slots in \<^verbatim>\<open>PaintEngine::processBlock\<close>, for slot
  \<open>i\<close>. It works on the engine and on the locals \<^verbatim>\<open>leftSample\<close>, \<^verbatim>\<open>rightSample\<close>
  and \<^verbatim>\<open>activeOscCount\<close>. \<open>hasRightChannel\<close> is \<^verbatim>\<open>rightChannel != nullptr\<close>.
\<close>

definition processSlot ::
    "Header \<Rightarrow> real \<Rightarrow> bool \<Rightarrow> nat \<Rightarrow> PaintEngine \<times> real \<times> real \<times> int \<Rightarrow> PaintEngine \<times> real \<times> real \<times> int" where
  "processSlot K now hasRightChannel i = (\<lambda>(s, leftSample, rightSample, activeOscCount).
     let oscState = oscillatorStates s ! i;
         osc = getFrontBuffer s ! i
     in if isActive oscState
        then let oscState1 = updateEnvelope K (sampleRate s) oscState;
                 osc1 = smoothParameters (smoothingFactorDefault K) osc;
                 oscSample = getSample osc1;
                 envelopedSample = oscSample * envelopeValue oscState1;
                 (l, r) = (if usePanning s \<and> hasRightChannel
                           then let panValue = 1 / 2
                                in (leftSample + envelopedSample * (1 - panValue),
                                    rightSample + envelopedSample * panValue)
                           else (leftSample + envelopedSample, rightSample));
                 osc2 = updatePhase (sampleRate s) osc1;
                 oscState2 = oscState1\<lparr>lastUsedTime := now\<rparr>;
                 s1 = setFrontBuffer ((getFrontBuffer s)[i := osc2])
                        (s\<lparr>oscillatorStates := (oscillatorStates s)[i := oscState2]\<rparr>)
             in (s1, l, r, activeOscCount + 1)
        else if envelopePhase oscState = Inactive \<and> inUse oscState
             then (s\<lparr>oscillatorStates := (oscillatorStates s)[i := oscState\<lparr>inUse := False\<rparr>],
                     freeOscillatorIndices := freeOscillatorIndices s @ [int i]\<rparr>,
                   leftSample, rightSample, activeOscCount)
             else (s, leftSample, rightSample, activeOscCount))"

text \<open>
  The body of the loop over the samples: all slots are processed, the master gain is
  applied, and the pair of output samples is returned (the right one is written only
  when there is a right channel). The active count is stored at sample 0.
\<close>

definition processSample :: "Header \<Rightarrow> real \<Rightarrow> bool \<Rightarrow> nat \<Rightarrow> PaintEngine \<Rightarrow> PaintEngine \<times> real \<times> real" where
  "processSample K now hasRightChannel sample s =
     (let (s1, leftSample, rightSample, activeOscCount) =
            fold (processSlot K now hasRightChannel) [0..<MAX_OSCILLATORS K] (s, 0, 0, 0);
          (currentGain, gain') = getNextValue (masterGain s1);
          leftOut = leftSample * currentGain;
          rightOut = (if usePanning s1 then rightSample * currentGain else leftOut);
          s2 = s1\<lparr>masterGain := gain'\<rparr>
      in (if sample = 0 then s2\<lparr>activeOscillators := activeOscCount\<rparr> else s2, leftOut, rightOut))"

fun sampleLoop :: "Header \<Rightarrow> real \<Rightarrow> bool \<Rightarrow> nat list \<Rightarrow> PaintEngine \<Rightarrow> PaintEngine \<times> real list \<times> real list" where
  "sampleLoop K now hasRightChannel [] s = (s, [], [])"
| "sampleLoop K now hasRightChannel (sample # rest) s =
     (let (s1, l, r) = processSample K now hasRightChannel sample s;
          (s2, ls, rs) = sampleLoop K now hasRightChannel rest s1
      in (s2, l # ls, r # rs))"

text \<open>
  The loop of \<^verbatim>\<open>PaintEngine::optimizeOscillatorPool\<close> over the back buffer, and the
  function itself.
\<close>

fun optimizeLoop :: "Header \<Rightarrow> nat list \<Rightarrow> nat \<Rightarrow> Oscillator list \<Rightarrow> Oscillator list" where
  "optimizeLoop K [] compactIndex backBuffer = backBuffer"
| "optimizeLoop K (i # rest) compactIndex backBuffer =
     (if oscillatorIsActive K (backBuffer ! i)
      then (if compactIndex \<noteq> i
            then optimizeLoop K rest (Suc compactIndex)
                   ((backBuffer[compactIndex := backBuffer ! i])[i := resetOscillator K (backBuffer ! i)])
            else optimizeLoop K rest (Suc compactIndex) backBuffer)
      else optimizeLoop K rest compactIndex backBuffer)"

definition optimizeOscillatorPool :: "Header \<Rightarrow> PaintEngine \<Rightarrow> PaintEngine" where
  "optimizeOscillatorPool K s =
     requestBufferSwap (setBackBuffer (optimizeLoop K [0..<MAX_OSCILLATORS K] 0 (getBackBuffer s)) s)"

text \<open>
  \<^verbatim>\<open>PaintEngine::processBlock\<close> on a buffer of \<open>numSamples\<close> samples and
  \<open>numChannels\<close> channels (at least one); it returns the engine and the two output
  channels. \<^verbatim>\<open>updateCanvasOscillators\<close> changes nothing, since
  \<^verbatim>\<open>Stroke::updateOscillators\<close> ignores its arguments. The clock readings of one
  block are the one value \<open>now\<close>.
\<close>

definition processBlock :: "Header \<Rightarrow> real \<Rightarrow> nat \<Rightarrow> nat \<Rightarrow> PaintEngine \<Rightarrow> PaintEngine \<times> real list \<times> real list" where
  "processBlock K now numSamples numChannels s =
     (if \<not> engineIsActive s then (s, replicate numSamples 0, replicate numSamples 0)
      else let s1 = swapBuffersIfPending s;
               (s2, ls, rs) = sampleLoop K now (numChannels > 1) [0..<numSamples] s1;
               s3 = s2\<lparr>blockCounter := blockCounter s2 + 1\<rparr>;
               s4 = (if blockCounter s3 mod 100 = 0 then optimizeOscillatorPool K s3 else s3)
           in (s4, ls, if numChannels > 1 then rs else replicate numSamples 0))"

section \<open>Sequences of calls\<close>

text \<open>
  The calls on the engine that the properties below range over. \<open>AllocateOscillator\<close>
  and \<open>ActivateOscillator\<close> are the two private functions called on their own;
  \<open>UpdateOscillatorsIncremental\<close> is the one place of the source that calls them, one
  after the other, and \<open>UpdateStroke\<close> is its public caller.
\<close>

datatype EngineCall =
    AllocateOscillator
  | ActivateOscillator real int AudioParams
  | UpdateOscillatorsIncremental real "int list" StrokePoint
  | BeginStroke StrokePoint
  | UpdateStroke real "int list" "real \<times> real" real
  | EndStroke
  | ReleaseOscillator int
  | ProcessSample real bool nat
  | ProcessBlock real nat nat
  | PrepareToPlay real int
  | ReleaseResources
  | ClearCanvas
  | SetFrequencyRange real real
  | SetCanvasRegion real real real real
  | SetActive bool

fun applyCall :: "Header \<Rightarrow> EngineCall \<Rightarrow> PaintEngine \<Rightarrow> PaintEngine" where
  "applyCall K AllocateOscillator s = snd (allocateOscillator K s)"
| "applyCall K (ActivateOscillator now index params) s = activateOscillator K now index params s"
| "applyCall K (UpdateOscillatorsIncremental now nearby point) s = updateOscillatorsIncremental K now nearby point s"
| "applyCall K (BeginStroke point) s = beginStroke K point s"
| "applyCall K (UpdateStroke now nearby pos pressure') s = updateStroke K now nearby pos pressure' s"
| "applyCall K EndStroke s = endStroke K s"
| "applyCall K (ReleaseOscillator index) s = releaseOscillator K index s"
| "applyCall K (ProcessSample now hasRightChannel sample) s = fst (processSample K now hasRightChannel sample s)"
| "applyCall K (ProcessBlock now numSamples numChannels) s = fst (processBlock K now numSamples numChannels s)"
| "applyCall K (PrepareToPlay sr n) s = prepareToPlay K sr n s"
| "applyCall K ReleaseResources s = releaseResources K s"
| "applyCall K ClearCanvas s = clearCanvas K s"
| "applyCall K (SetFrequencyRange minHz maxHz) s = setFrequencyRange minHz maxHz s"
| "applyCall K (SetCanvasRegion leftX rightX bottomY topY) s = setCanvasRegion leftX rightX bottomY topY s"
| "applyCall K (SetActive b) s = s\<lparr>engineIsActive := b\<rparr>"

definition runCalls :: "Header \<Rightarrow> EngineCall list \<Rightarrow> PaintEngine \<Rightarrow> PaintEngine" where
  "runCalls K calls s = fold (applyCall K) calls s"

text \<open>A call other than the two private pool functions on their own.\<close>

fun isEngineLevel :: "EngineCall \<Rightarrow> bool" where
  "isEngineLevel AllocateOscillator = False"
| "isEngineLevel (ActivateOscillator now index params) = False"
| "isEngineLevel c = True"

section \<open>Notions for the properties\<close>

text \<open>
  The partition of the oscillator indices: the free list has no duplicates and holds
  indices below \<^verbatim>\<open>MAX_OSCILLATORS\<close> only, and an index is on the free list exactly
  when its slot is not in use.
\<close>

definition poolPartition :: "Header \<Rightarrow> PaintEngine \<Rightarrow> bool" where
  "poolPartition K s =
     (distinct (freeOscillatorIndices s)
      \<and> list_all (\<lambda>j. 0 \<le> j \<and> j < int (MAX_OSCILLATORS K)) (freeOscillatorIndices s)
      \<and> list_all (\<lambda>i. (int i \<in> set (freeOscillatorIndices s)) \<noteq> inUse (oscillatorStates s ! i))
          [0..<MAX_OSCILLATORS K])"

text \<open>
  The shape every engine keeps from its construction on: two pools and the state vector
  of \<^verbatim>\<open>MAX_OSCILLATORS\<close> elements each, and the front and back index the two indices
  0 and 1.
\<close>

definition wellFormed :: "Header \<Rightarrow> PaintEngine \<Rightarrow> bool" where
  "wellFormed K s =
     (length (oscillatorPools s) = 2
      \<and> list_all (\<lambda>pool. length pool = MAX_OSCILLATORS K) (oscillatorPools s)
      \<and> length (oscillatorStates s) = MAX_OSCILLATORS K
      \<and> frontBufferIndex s < 2 \<and> backBufferIndex s < 2
      \<and> frontBufferIndex s \<noteq> backBufferIndex s)"

text \<open>A slot that is winding down: its envelope phase is Release or Inactive.\<close>

definition winding :: "EnhancedOscillatorState \<Rightarrow> bool" where
  "winding st = (envelopePhase st = Release \<or> envelopePhase st = Inactive)"

text \<open>
  Two notions for stating what the loop over the slots does to one slot: a slot is
  reclaimable when its envelope phase is Inactive and it is still in use, and
  \<open>slotStep\<close> is the state of a slot after the loop body has run on it.
\<close>

definition reclaimable :: "EnhancedOscillatorState \<Rightarrow> bool" where
  "reclaimable st = (envelopePhase st = Inactive \<and> inUse st)"

definition slotStep :: "Header \<Rightarrow> real \<Rightarrow> real \<Rightarrow> EnhancedOscillatorState \<Rightarrow> EnhancedOscillatorState" where
  "slotStep K sr now st =
     (if isActive st then (updateEnvelope K sr st)\<lparr>lastUsedTime := now\<rparr>
      else if inUse st then st\<lparr>inUse := False\<rparr>
      else st)"

text \<open>
  The distance as the spec words it, for comparison with \<open>calculateDistance\<close>: from the
  point to the estimated position of the oscillator, whose Y is the inverse mapping of
  its target frequency and whose X is assumed to be \<^verbatim>\<open>canvasLeft\<close>.
\<close>

definition calculateDistance_spec :: "PaintEngine \<Rightarrow> nat \<Rightarrow> real \<times> real \<Rightarrow> real" where
  "calculateDistance_spec s oscillatorIndex pos =
     (let oscY = frequencyToCanvasY s (targetFrequency (oscillatorStates s ! oscillatorIndex));
          dx = fst pos - canvasLeft s;
          dy = snd pos - oscY
      in sqrt (dx * dx + dy * dy))"

text \<open>A pool is silent when every oscillator in it has amplitude and target amplitude zero.\<close>

definition silentPool :: "Oscillator list \<Rightarrow> bool" where
  "silentPool pool = list_all (\<lambda>osc. amplitude osc = 0 \<and> oscTargetAmplitude osc = 0) pool"

text \<open>A call whose clock reading, if it takes one, is below \<^verbatim>\<open>FLT_MAX\<close>.\<close>

fun clockInRange :: "EngineCall \<Rightarrow> bool" where
  "clockInRange (ActivateOscillator now index params) = (now < FLT_MAX)"
| "clockInRange (UpdateOscillatorsIncremental now nearby point) = (now < FLT_MAX)"
| "clockInRange (UpdateStroke now nearby pos pressure') = (now < FLT_MAX)"
| "clockInRange (ProcessSample now hasRightChannel sample) = (now < FLT_MAX)"
| "clockInRange (ProcessBlock now numSamples numChannels) = (now < FLT_MAX)"
| "clockInRange c = True"

text \<open>Every time stamp of the state vector is below \<^verbatim>\<open>FLT_MAX\<close>.\<close>

definition stampsInRange :: "PaintEngine \<Rightarrow> bool" where
  "stampsInRange s = list_all (\<lambda>st. lastUsedTime st < FLT_MAX) (oscillatorStates s)"

section \<open>Example engines\<close>

text \<open>
  A header with a pool of two oscillators, and a sounding slot, for the concrete
  instances below. The values of its constants are chosen for these instances; the
  header that defines the constants of the source is not among the sources.
\<close>

definition exampleHeader :: Header where
  "exampleHeader =
     \<lparr>MAX_OSCILLATORS = 2, INFLUENCE_RADIUS = 10, REGION_SIZE = 100, smoothingFactorDefault = 1 / 20,
      defaultOscillator = \<lparr>frequency = 440, amplitude = 0, oscTargetAmplitude = 0, pan = 1 / 2,
                           oscTargetPan = 1 / 2, phase = 0, phaseIncrement = 0\<rparr>,
      oscillatorIsActive = (\<lambda>osc. 0 < amplitude osc),
      attackRate = 100, releaseRate = 10, reclaimEpsilon = 1 / 1000,
      defaultColorIsTransparentBlack = False, defaultColorHue = 0\<rparr>"

definition soundingState :: "real \<Rightarrow> EnhancedOscillatorState" where
  "soundingState t =
     \<lparr>envelopePhase = Sustain, envelopeValue = 1, targetFrequency = 440, targetAmplitude = 1,
      targetPan = 0, lastUsedTime = t, inUse = True\<rparr>"

text \<open>The example engine with both slots sounding and an empty free list.\<close>

definition fullEngine :: PaintEngine where
  "fullEngine =
     (PaintEngine_init exampleHeader)
       \<lparr>oscillatorStates := [soundingState 5, soundingState 3], freeOscillatorIndices := []\<rparr>"

text \<open>A stroke point at \<open>(x, y)\<close> with pressure \<open>p\<close> and an opaque colour of hue 0.\<close>

definition examplePoint :: "real \<Rightarrow> real \<Rightarrow> real \<Rightarrow> StrokePoint" where
  "examplePoint x y p = \<lparr>position = (x, y), pressure = p, colorIsTransparentBlack = False, colorHue = 0\<rparr>"

text \<open>The freshly constructed example engine after \<^verbatim>\<open>setFrequencyRange(1, 22000)\<close>.\<close>

definition wideEngine :: PaintEngine where
  "wideEngine = setFrequencyRange 1 22000 (PaintEngine_init exampleHeader)"

text \<open>
  The freshly constructed example engine after one stroke point in the middle of the
  canvas: slot 1 is allocated and activated.
\<close>

definition paintedEngine :: PaintEngine where
  "paintedEngine =
     updateOscillatorsIncremental exampleHeader 0 [] (examplePoint 0 0 1) (PaintEngine_init exampleHeader)"

text \<open>
  The example engine with slot 1 in use and in its Release phase, at an envelope value
  that the next envelope step takes below the reclaim epsilon (sample rate 10).
\<close>

definition releasingEngine :: PaintEngine where
  "releasingEngine =
     (PaintEngine_init exampleHeader)
       \<lparr>oscillatorStates := [defaultOscillatorState,
                             (soundingState 0)\<lparr>envelopePhase := Release, envelopeValue := 1 / 2\<rparr>],
        freeOscillatorIndices := [0],
        sampleRate := 10,
        engineIsActive := True\<rparr>"

text \<open>
  The example engine with slot 1 sounding at full envelope, its oscillator in the front
  buffer panned hard left (pan and target pan 0) at amplitude 1 and a quarter of a
  cycle into its phase, where the sine is 1.
\<close>

definition hardLeftOscillator :: Oscillator where
  "hardLeftOscillator =
     \<lparr>frequency = 440, amplitude = 1, oscTargetAmplitude = 1, pan = 0, oscTargetPan = 0,
      phase = 1 / 4, phaseIncrement = 0\<rparr>"

definition hardLeftEngine :: PaintEngine where
  "hardLeftEngine =
     (PaintEngine_init exampleHeader)
       \<lparr>oscillatorPools := [[defaultOscillator exampleHeader, hardLeftOscillator],
                            [defaultOscillator exampleHeader, defaultOscillator exampleHeader]],
        oscillatorStates := [defaultOscillatorState, soundingState 0],
        freeOscillatorIndices := [0],
        sampleRate := 44100,
        engineIsActive := True\<rparr>"

text \<open>
  The example engine after one stroke point, switched on: slot 1 is allocated and in its
  Attack phase.
\<close>

definition activePaintedEngine :: PaintEngine where
  "activePaintedEngine =
     runCalls exampleHeader [UpdateOscillatorsIncremental 0 [] (examplePoint 0 0 1), SetActive True]
       (PaintEngine_init exampleHeader)"









section \<open>Properties\<close>

subsection \<open>Region keys\<close>

text \<open>
  C10. The claim: \<^verbatim>\<open>getRegionKey\<close> is injective on integer grid coordinates, negative
  ones included, so that two distinct regions never share a map entry. The code: the
  second coordinate is sign-extended before the bitwise or, so for a negative
  \<^verbatim>\<open>regionY\<close> the upper 32 bits of the key are all ones, whatever \<^verbatim>\<open>regionX\<close> is. The
  regions \<open>(0, -1)\<close> and \<open>(1, -1)\<close> have the same key.
\<close>

theorem getRegionKey_collision:
  "getRegionKey 0 (- 1) = getRegionKey 1 (- 1) \<and> getRegionKey 0 (- 1) = - 1
   \<and> (0 :: 32 word) \<noteq> 1"
  by (simp add: getRegionKey_def)

subsection \<open>Allocation policy\<close>

declare findBestLoop.simps [simp del]


lemma findBestLoop_first_winding:
  "i \<le> k \<Longrightarrow> k < n \<Longrightarrow> winding (states ! k) \<Longrightarrow> (\<forall>j. i \<le> j \<and> j < k \<longrightarrow> \<not> winding (states ! j))
   \<Longrightarrow> findBestLoop n states i oi ot = int k"
proof (induction n states i oi ot rule: findBestLoop.induct)
  case (1 n states i oldestIndex oldestTime)
  show ?case
  proof (cases "i = k")
    case True
    with 1(4,5) show ?thesis
      by (subst findBestLoop.simps) (simp add: winding_def)
  next
    case False
    with 1(3) have lt: "i < k" by simp
    with 1(6) have nw: "\<not> winding (states ! i)" by simp
    from lt 1(4) have "i < n" by simp
    have step: "\<forall>j. Suc i \<le> j \<and> j < k \<longrightarrow> \<not> winding (states ! j)"
      using 1(6) by simp
    show ?thesis
    proof (cases "lastUsedTime (states ! i) < oldestTime")
      case True
      have "findBestLoop n states (Suc i) (int i) (lastUsedTime (states ! i)) = int k"
        using 1(1)[OF \<open>i < n\<close> refl _ True] nw lt 1(4,5) step by (simp add: winding_def)
      then show ?thesis using \<open>i < n\<close> nw True
        by (subst findBestLoop.simps) (simp add: winding_def Let_def)
    next
      case False
      have "findBestLoop n states (Suc i) oldestIndex oldestTime = int k"
        using 1(2)[OF \<open>i < n\<close> refl _ False] nw lt 1(4,5) step by (simp add: winding_def)
      then show ?thesis using \<open>i < n\<close> nw False
        by (subst findBestLoop.simps) (simp add: winding_def Let_def)
    qed
  qed
qed

lemma findBestLoop_oldest:
  "(\<forall>j. i \<le> j \<and> j < n \<longrightarrow> \<not> winding (states ! j)) \<Longrightarrow>
   (findBestLoop n states i oi ot = oi \<and> (\<forall>j. i \<le> j \<and> j < n \<longrightarrow> \<not> lastUsedTime (states ! j) < ot))
   \<or> (\<exists>k. i \<le> k \<and> k < n \<and> findBestLoop n states i oi ot = int k
        \<and> lastUsedTime (states ! k) < ot
        \<and> (\<forall>j. i \<le> j \<and> j < n \<longrightarrow> lastUsedTime (states ! k) \<le> lastUsedTime (states ! j))
        \<and> (\<forall>j. i \<le> j \<and> j < k \<longrightarrow> lastUsedTime (states ! k) < lastUsedTime (states ! j)))"
proof (induction n states i oi ot rule: findBestLoop.induct)
  case (1 n states i oldestIndex oldestTime)
  show ?case
  proof (cases "i < n")
    case False
    then show ?thesis by (subst findBestLoop.simps) simp
  next
    case inb: True
    with 1(3) have nw: "\<not> winding (states ! i)" by simp
    have rest: "\<forall>j. Suc i \<le> j \<and> j < n \<longrightarrow> \<not> winding (states ! j)" using 1(3) by simp
    show ?thesis
    proof (cases "lastUsedTime (states ! i) < oldestTime")
      case True
      have eq: "findBestLoop n states i oldestIndex oldestTime
                = findBestLoop n states (Suc i) (int i) (lastUsedTime (states ! i))"
        using inb nw True by (subst findBestLoop.simps) (simp add: winding_def Let_def)
      from 1(1)[OF inb refl _ True] nw rest
      consider
        (keep) "findBestLoop n states (Suc i) (int i) (lastUsedTime (states ! i)) = int i"
               "\<forall>j. Suc i \<le> j \<and> j < n \<longrightarrow> \<not> lastUsedTime (states ! j) < lastUsedTime (states ! i)"
      | (later) k where "Suc i \<le> k" "k < n"
               "findBestLoop n states (Suc i) (int i) (lastUsedTime (states ! i)) = int k"
               "lastUsedTime (states ! k) < lastUsedTime (states ! i)"
               "\<forall>j. Suc i \<le> j \<and> j < n \<longrightarrow> lastUsedTime (states ! k) \<le> lastUsedTime (states ! j)"
               "\<forall>j. Suc i \<le> j \<and> j < k \<longrightarrow> lastUsedTime (states ! k) < lastUsedTime (states ! j)"
        by (auto simp: winding_def)
      then show ?thesis
      proof cases
        case keep
        have "\<forall>j. i \<le> j \<and> j < n \<longrightarrow> lastUsedTime (states ! i) \<le> lastUsedTime (states ! j)"
        proof (intro allI impI)
          fix j assume "i \<le> j \<and> j < n"
          then show "lastUsedTime (states ! i) \<le> lastUsedTime (states ! j)"
            using keep(2) by (cases "j = i") (auto simp: not_less)
        qed
        then show ?thesis using eq keep inb True by auto
      next
        case later
        have a: "\<forall>j. i \<le> j \<and> j < n \<longrightarrow> lastUsedTime (states ! k) \<le> lastUsedTime (states ! j)"
        proof (intro allI impI)
          fix j assume "i \<le> j \<and> j < n"
          then show "lastUsedTime (states ! k) \<le> lastUsedTime (states ! j)"
            using later(4,5) by (cases "j = i") auto
        qed
        have b: "\<forall>j. i \<le> j \<and> j < k \<longrightarrow> lastUsedTime (states ! k) < lastUsedTime (states ! j)"
        proof (intro allI impI)
          fix j assume "i \<le> j \<and> j < k"
          then show "lastUsedTime (states ! k) < lastUsedTime (states ! j)"
            using later(4,6) by (cases "j = i") auto
        qed
        have "i \<le> k" using later(1) by simp
        moreover have "lastUsedTime (states ! k) < oldestTime" using later(4) True by simp
        ultimately show ?thesis using eq later(2,3) a b by auto
      qed
    next
      case False
      have eq: "findBestLoop n states i oldestIndex oldestTime
                = findBestLoop n states (Suc i) oldestIndex oldestTime"
        using inb nw False by (subst findBestLoop.simps) (simp add: winding_def Let_def)
      from 1(2)[OF inb refl _ False] nw rest
      consider
        (keep) "findBestLoop n states (Suc i) oldestIndex oldestTime = oldestIndex"
               "\<forall>j. Suc i \<le> j \<and> j < n \<longrightarrow> \<not> lastUsedTime (states ! j) < oldestTime"
      | (later) k where "Suc i \<le> k" "k < n"
               "findBestLoop n states (Suc i) oldestIndex oldestTime = int k"
               "lastUsedTime (states ! k) < oldestTime"
               "\<forall>j. Suc i \<le> j \<and> j < n \<longrightarrow> lastUsedTime (states ! k) \<le> lastUsedTime (states ! j)"
               "\<forall>j. Suc i \<le> j \<and> j < k \<longrightarrow> lastUsedTime (states ! k) < lastUsedTime (states ! j)"
        by (auto simp: winding_def)
      then show ?thesis
      proof cases
        case keep
        have "\<forall>j. i \<le> j \<and> j < n \<longrightarrow> \<not> lastUsedTime (states ! j) < oldestTime"
        proof (intro allI impI)
          fix j assume "i \<le> j \<and> j < n"
          then show "\<not> lastUsedTime (states ! j) < oldestTime"
            using keep(2) False by (cases "j = i") auto
        qed
        then show ?thesis using eq keep(1) by auto
      next
        case later
        have a: "\<forall>j. i \<le> j \<and> j < n \<longrightarrow> lastUsedTime (states ! k) \<le> lastUsedTime (states ! j)"
        proof (intro allI impI)
          fix j assume "i \<le> j \<and> j < n"
          then show "lastUsedTime (states ! k) \<le> lastUsedTime (states ! j)"
            using later(4,5) False by (cases "j = i") auto
        qed
        have b: "\<forall>j. i \<le> j \<and> j < k \<longrightarrow> lastUsedTime (states ! k) < lastUsedTime (states ! j)"
        proof (intro allI impI)
          fix j assume "i \<le> j \<and> j < k"
          then show "lastUsedTime (states ! k) < lastUsedTime (states ! j)"
            using later(4,6) False by (cases "j = i") auto
        qed
        have "i \<le> k" using later(1) by simp
        then show ?thesis using eq later(2,3,4) a b by auto
      qed
    qed
  qed
qed

lemma list_all_nth: "list_all P xs \<Longrightarrow> j < length xs \<Longrightarrow> P (xs ! j)"
  by (simp add: list_all_length)

text \<open>
  C4. \<^verbatim>\<open>allocateOscillator\<close> pops the last element pushed on the free list when the
  list is not empty, and leaves the engine as it is otherwise. With an empty free list
  it returns the lowest slot whose envelope phase is Release or Inactive if there is
  one, and else the first slot of minimum \<^verbatim>\<open>lastUsedTime\<close>. When the pool has at least
  one slot the result is an index of the pool. This holds for an engine whose state
  vector has \<^verbatim>\<open>MAX_OSCILLATORS\<close> entries, whose free list holds indices of the pool and
  whose time stamps are below \<^verbatim>\<open>FLT_MAX\<close>, as clock readings are. The function is
  total: its loop is \<open>findBestLoop\<close>, which terminates.
\<close>

theorem allocateOscillator_policy:
  assumes len: "length (oscillatorStates s) = MAX_OSCILLATORS K"
    and free_ok: "list_all (\<lambda>j. 0 \<le> j \<and> j < int (MAX_OSCILLATORS K)) (freeOscillatorIndices s)"
    and times: "list_all (\<lambda>st. lastUsedTime st < FLT_MAX) (oscillatorStates s)"
  shows "(\<forall>fs j. freeOscillatorIndices s = fs @ [j] \<longrightarrow>
            allocateOscillator K s = (j, s\<lparr>freeOscillatorIndices := fs\<rparr>))
       \<and> (freeOscillatorIndices s = [] \<longrightarrow> snd (allocateOscillator K s) = s)
       \<and> (freeOscillatorIndices s = [] \<and> (\<exists>k < MAX_OSCILLATORS K. winding (oscillatorStates s ! k)) \<longrightarrow>
            (\<exists>k < MAX_OSCILLATORS K. fst (allocateOscillator K s) = int k
                \<and> winding (oscillatorStates s ! k)
                \<and> (\<forall>j < k. \<not> winding (oscillatorStates s ! j))))
       \<and> (freeOscillatorIndices s = [] \<and> (\<forall>k < MAX_OSCILLATORS K. \<not> winding (oscillatorStates s ! k))
             \<and> 0 < MAX_OSCILLATORS K \<longrightarrow>
            (\<exists>k < MAX_OSCILLATORS K. fst (allocateOscillator K s) = int k
                \<and> (\<forall>j < MAX_OSCILLATORS K. lastUsedTime (oscillatorStates s ! k) \<le> lastUsedTime (oscillatorStates s ! j))
                \<and> (\<forall>j < k. lastUsedTime (oscillatorStates s ! k) < lastUsedTime (oscillatorStates s ! j))))
       \<and> (0 < MAX_OSCILLATORS K \<longrightarrow>
            0 \<le> fst (allocateOscillator K s) \<and> fst (allocateOscillator K s) < int (MAX_OSCILLATORS K))"
proof -
  let ?n = "MAX_OSCILLATORS K"
  let ?st = "oscillatorStates s"
  have pop: "\<forall>fs j. freeOscillatorIndices s = fs @ [j] \<longrightarrow>
            allocateOscillator K s = (j, s\<lparr>freeOscillatorIndices := fs\<rparr>)"
    by (simp add: allocateOscillator_def)
  have keep: "freeOscillatorIndices s = [] \<longrightarrow> snd (allocateOscillator K s) = s"
    by (simp add: allocateOscillator_def)
  have first: "\<exists>k < ?n. findBestLoop ?n ?st 0 (- 1) FLT_MAX = int k \<and> winding (?st ! k)
                  \<and> (\<forall>j < k. \<not> winding (?st ! j))"
    if ex: "\<exists>k < ?n. winding (?st ! k)"
  proof -
    define k where "k = (LEAST k. k < ?n \<and> winding (?st ! k))"
    from ex have "\<exists>k. k < ?n \<and> winding (?st ! k)" by blast
    then have k: "k < ?n \<and> winding (?st ! k)"
      unfolding k_def by (rule LeastI_ex)
    have least: "\<forall>j < k. \<not> winding (?st ! j)"
    proof (intro allI impI)
      fix j assume "j < k"
      then have "\<not> (j < ?n \<and> winding (?st ! j))" unfolding k_def by (rule not_less_Least)
      moreover have "j < ?n" using \<open>j < k\<close> k by simp
      ultimately show "\<not> winding (?st ! j)" by simp
    qed
    have "findBestLoop ?n ?st 0 (- 1) FLT_MAX = int k"
      using k least by (intro findBestLoop_first_winding) auto
    with k least show ?thesis by blast
  qed
  have oldest: "\<exists>k < ?n. findBestLoop ?n ?st 0 (- 1) FLT_MAX = int k
                  \<and> (\<forall>j < ?n. lastUsedTime (?st ! k) \<le> lastUsedTime (?st ! j))
                  \<and> (\<forall>j < k. lastUsedTime (?st ! k) < lastUsedTime (?st ! j))"
    if none: "\<forall>k < ?n. \<not> winding (?st ! k)" and pos: "0 < ?n"
  proof -
    have "lastUsedTime (?st ! 0) < FLT_MAX"
      using list_all_nth[OF times, of 0] len pos by simp
    with pos have notkeep: "\<not> (\<forall>j. 0 \<le> j \<and> j < ?n \<longrightarrow> \<not> lastUsedTime (?st ! j) < FLT_MAX)"
      by auto
    from findBestLoop_oldest[of 0 ?n ?st "- 1" FLT_MAX] none notkeep
    show ?thesis by auto
  qed
  have valid: "0 \<le> fst (allocateOscillator K s) \<and> fst (allocateOscillator K s) < int ?n" if pos: "0 < ?n"
  proof (cases "freeOscillatorIndices s = []")
    case False
    then have "last (freeOscillatorIndices s) \<in> set (freeOscillatorIndices s)" by simp
    with free_ok have "0 \<le> last (freeOscillatorIndices s) \<and> last (freeOscillatorIndices s) < int ?n"
      by (simp add: list_all_iff)
    with False show ?thesis by (simp add: allocateOscillator_def)
  next
    case True
    show ?thesis
    proof (cases "\<exists>k < ?n. winding (?st ! k)")
      case True
      from first[OF True] \<open>freeOscillatorIndices s = []\<close> show ?thesis
        by (auto simp: allocateOscillator_def findBestOscillatorForReplacement_def)
    next
      case False
      then have "\<forall>k < ?n. \<not> winding (?st ! k)" by simp
      from oldest[OF this pos] \<open>freeOscillatorIndices s = []\<close> show ?thesis
        by (auto simp: allocateOscillator_def findBestOscillatorForReplacement_def)
    qed
  qed
  have c3: "freeOscillatorIndices s = [] \<and> (\<exists>k < ?n. winding (?st ! k)) \<longrightarrow>
            (\<exists>k < ?n. fst (allocateOscillator K s) = int k \<and> winding (?st ! k)
                \<and> (\<forall>j < k. \<not> winding (?st ! j)))"
    using first by (simp add: allocateOscillator_def findBestOscillatorForReplacement_def)
  have c4: "freeOscillatorIndices s = [] \<and> (\<forall>k < ?n. \<not> winding (?st ! k)) \<and> 0 < ?n \<longrightarrow>
            (\<exists>k < ?n. fst (allocateOscillator K s) = int k
                \<and> (\<forall>j < ?n. lastUsedTime (?st ! k) \<le> lastUsedTime (?st ! j))
                \<and> (\<forall>j < k. lastUsedTime (?st ! k) < lastUsedTime (?st ! j)))"
    using oldest by (simp add: allocateOscillator_def findBestOscillatorForReplacement_def)
  from pop keep c3 c4 valid show ?thesis by blast
qed

lemma fullEngine_states: "oscillatorStates fullEngine = [soundingState 5, soundingState 3]"
  by (simp add: fullEngine_def)

lemma fullEngine_free: "freeOscillatorIndices fullEngine = []"
  by (simp add: fullEngine_def)

lemma exampleHeader_max: "MAX_OSCILLATORS exampleHeader = 2"
  by (simp add: exampleHeader_def)

theorem allocateOscillator_policy_witness:
  "length (oscillatorStates fullEngine) = MAX_OSCILLATORS exampleHeader
   \<and> list_all (\<lambda>j. 0 \<le> j \<and> j < int (MAX_OSCILLATORS exampleHeader)) (freeOscillatorIndices fullEngine)
   \<and> list_all (\<lambda>st. lastUsedTime st < FLT_MAX) (oscillatorStates fullEngine)
   \<and> freeOscillatorIndices fullEngine = []
   \<and> \<not> winding (oscillatorStates fullEngine ! 0)
   \<and> \<not> winding (oscillatorStates fullEngine ! 1)
   \<and> 0 \<le> fst (allocateOscillator exampleHeader fullEngine)
   \<and> fst (allocateOscillator exampleHeader fullEngine) < 2"
proof -
  have len: "length (oscillatorStates fullEngine) = MAX_OSCILLATORS exampleHeader"
    by (simp add: fullEngine_states exampleHeader_max)
  have free_ok: "list_all (\<lambda>j. 0 \<le> j \<and> j < int (MAX_OSCILLATORS exampleHeader)) (freeOscillatorIndices fullEngine)"
    by (simp add: fullEngine_free)
  have times: "list_all (\<lambda>st. lastUsedTime st < FLT_MAX) (oscillatorStates fullEngine)"
    by (simp add: fullEngine_states soundingState_def FLT_MAX_def)
  have nw: "\<forall>k < MAX_OSCILLATORS exampleHeader. \<not> winding (oscillatorStates fullEngine ! k)"
    by (simp add: fullEngine_states exampleHeader_max winding_def soundingState_def less_Suc_eq numeral_2_eq_2)
  have nw': "\<not> winding (oscillatorStates fullEngine ! 0) \<and> \<not> winding (oscillatorStates fullEngine ! 1)"
    using nw by (simp add: exampleHeader_max)
  from allocateOscillator_policy[OF len free_ok times] len free_ok times nw'
  show ?thesis by (simp add: fullEngine_free exampleHeader_max)
qed

subsection \<open>Coordinate mapping\<close>

lemma jlimit_bounds: "lo \<le> hi \<Longrightarrow> lo \<le> jlimit lo hi x \<and> jlimit lo hi x \<le> hi"
  by (simp add: jlimit_def)

lemma jlimit_id: "lo \<le> x \<Longrightarrow> x \<le> hi \<Longrightarrow> jlimit lo hi x = x"
  by (simp add: jlimit_def)

lemma setFrequencyRange_range:
  "1 \<le> minFrequency (setFrequencyRange minHz maxHz s)
   \<and> minFrequency (setFrequencyRange minHz maxHz s) \<le> 20000
   \<and> minFrequency (setFrequencyRange minHz maxHz s) + 1 \<le> maxFrequency (setFrequencyRange minHz maxHz s)
   \<and> maxFrequency (setFrequencyRange minHz maxHz s) \<le> 22000"
  by (simp add: setFrequencyRange_def Let_def jlimit_def)

lemma setFrequencyRange_canvas:
  "canvasBottom (setFrequencyRange minHz maxHz s) = canvasBottom s
   \<and> canvasTop (setFrequencyRange minHz maxHz s) = canvasTop s
   \<and> useLogFrequencyScale (setFrequencyRange minHz maxHz s) = useLogFrequencyScale s"
  by (simp add: setFrequencyRange_def Let_def)

lemma unit_interpolation:
  fixes a b t :: real
  assumes "a \<le> b" "0 \<le> t" "t \<le> 1"
  shows "a \<le> a + t * (b - a) \<and> a + t * (b - a) \<le> b"
proof -
  have "0 \<le> t * (b - a)" using assms by simp
  moreover have "t * (b - a) \<le> 1 * (b - a)"
    using assms by (intro mult_right_mono) simp_all
  ultimately show ?thesis by simp
qed

lemma canvasYToFrequency_bounds:
  assumes pos: "0 < minFrequency s" and le: "minFrequency s \<le> maxFrequency s"
  shows "minFrequency s \<le> canvasYToFrequency s y \<and> canvasYToFrequency s y \<le> maxFrequency s"
proof -
  define t where "t = jlimit 0 1 ((y - canvasBottom s) / (canvasTop s - canvasBottom s))"
  have t: "0 \<le> t" "t \<le> 1" using jlimit_bounds[of 0 1] by (simp_all add: t_def)
  show ?thesis
  proof (cases "useLogFrequencyScale s")
    case False
    then have "canvasYToFrequency s y = minFrequency s + t * (maxFrequency s - minFrequency s)"
      by (simp add: canvasYToFrequency_def t_def Let_def)
    with unit_interpolation[OF le t] show ?thesis by simp
  next
    case True
    have lnle: "ln (minFrequency s) \<le> ln (maxFrequency s)" using pos le by simp
    define e where "e = ln (minFrequency s) + t * (ln (maxFrequency s) - ln (minFrequency s))"
    have eq: "canvasYToFrequency s y = exp e"
      using True by (simp add: canvasYToFrequency_def t_def e_def Let_def)
    from unit_interpolation[OF lnle t]
    have "ln (minFrequency s) \<le> e" "e \<le> ln (maxFrequency s)" by (simp_all add: e_def)
    then have "exp (ln (minFrequency s)) \<le> exp e" "exp e \<le> exp (ln (maxFrequency s))" by simp_all
    with pos le eq show ?thesis by simp
  qed
qed

lemma canvas_roundtrip_general:
  assumes pos: "0 < minFrequency s" and lt: "minFrequency s < maxFrequency s"
    and canvas: "canvasBottom s < canvasTop s"
    and y: "canvasBottom s \<le> y" "y \<le> canvasTop s"
  shows "frequencyToCanvasY s (canvasYToFrequency s y) = y"
proof -
  define h where "h = canvasTop s - canvasBottom s"
  define t where "t = (y - canvasBottom s) / h"
  have h: "0 < h" using canvas by (simp add: h_def)
  have t: "0 \<le> t" "t \<le> 1" using y h by (simp_all add: t_def h_def)
  have clamp: "jlimit 0 1 ((y - canvasBottom s) / (canvasTop s - canvasBottom s)) = t"
    using t by (simp add: jlimit_id t_def h_def)
  have inv: "canvasBottom s + t * (canvasTop s - canvasBottom s) = y"
    using h by (simp add: t_def h_def)
  from canvasYToFrequency_bounds[OF pos less_imp_le[OF lt], of y]
  have fclamp: "jlimit (minFrequency s) (maxFrequency s) (canvasYToFrequency s y) = canvasYToFrequency s y"
    by (simp add: jlimit_id)
  show ?thesis
  proof (cases "useLogFrequencyScale s")
    case False
    have f: "canvasYToFrequency s y = minFrequency s + t * (maxFrequency s - minFrequency s)"
      using False clamp by (simp add: canvasYToFrequency_def Let_def)
    have r: "(canvasYToFrequency s y - minFrequency s) / (maxFrequency s - minFrequency s) = t"
      using lt by (simp add: f)
    have "frequencyToCanvasY s (canvasYToFrequency s y)
          = canvasBottom s + ((canvasYToFrequency s y - minFrequency s) / (maxFrequency s - minFrequency s))
              * (canvasTop s - canvasBottom s)"
      unfolding frequencyToCanvasY_def Let_def fclamp using False by (simp only: if_False)
    also have "\<dots> = y" by (simp only: r inv)
    finally show ?thesis .
  next
    case True
    define d where "d = ln (maxFrequency s) - ln (minFrequency s)"
    have d: "0 < d" using pos lt by (simp add: d_def)
    have f: "canvasYToFrequency s y = exp (ln (minFrequency s) + t * d)"
      using True clamp by (simp add: canvasYToFrequency_def Let_def d_def)
    have r: "(ln (canvasYToFrequency s y) - ln (minFrequency s)) / (ln (maxFrequency s) - ln (minFrequency s)) = t"
      using d by (simp add: f d_def)
    have "frequencyToCanvasY s (canvasYToFrequency s y)
          = canvasBottom s + ((ln (canvasYToFrequency s y) - ln (minFrequency s))
                               / (ln (maxFrequency s) - ln (minFrequency s)))
              * (canvasTop s - canvasBottom s)"
      unfolding frequencyToCanvasY_def Let_def fclamp using True by (simp only: if_True)
    also have "\<dots> = y" by (simp only: r inv)
    finally show ?thesis .
  qed
qed

text \<open>
  C7. For every \<open>y\<close> between \<^verbatim>\<open>canvasBottom\<close> and \<^verbatim>\<open>canvasTop\<close> of a canvas of
  positive height, \<^verbatim>\<open>frequencyToCanvasY(canvasYToFrequency(y))\<close> is \<open>y\<close>, in the
  logarithmic and in the linear mode, for the frequency range that any call of
  \<^verbatim>\<open>setFrequencyRange\<close> sets. The arithmetic is exact here, so the two sides are
  equal; what the source adds is the rounding of \<^verbatim>\<open>float\<close>.
\<close>

theorem canvas_roundtrip:
  assumes canvas: "canvasBottom s < canvasTop s"
    and y: "canvasBottom s \<le> y" "y \<le> canvasTop s"
  shows "frequencyToCanvasY (setFrequencyRange minHz maxHz (s\<lparr>useLogFrequencyScale := logScale\<rparr>))
           (canvasYToFrequency (setFrequencyRange minHz maxHz (s\<lparr>useLogFrequencyScale := logScale\<rparr>)) y) = y"
proof -
  let ?s = "setFrequencyRange minHz maxHz (s\<lparr>useLogFrequencyScale := logScale\<rparr>)"
  from setFrequencyRange_range[of minHz maxHz "s\<lparr>useLogFrequencyScale := logScale\<rparr>"]
  have "0 < minFrequency ?s" "minFrequency ?s < maxFrequency ?s" by linarith+
  moreover have "canvasBottom ?s < canvasTop ?s" "canvasBottom ?s \<le> y" "y \<le> canvasTop ?s"
    using canvas y by (simp_all add: setFrequencyRange_canvas)
  ultimately show ?thesis by (rule canvas_roundtrip_general)
qed

lemma init_canvas: "canvasBottom (PaintEngine_init K) = - 50 \<and> canvasTop (PaintEngine_init K) = 50
  \<and> canvasLeft (PaintEngine_init K) = - 100 \<and> canvasRight (PaintEngine_init K) = 100"
  by (simp add: PaintEngine_init_def setCanvasRegion_def setFrequencyRange_def Let_def)

lemma init_range: "minFrequency (PaintEngine_init K) = 20 \<and> maxFrequency (PaintEngine_init K) = 20000"
  by (simp add: PaintEngine_init_def setCanvasRegion_def setFrequencyRange_def Let_def jlimit_def)

lemma init_flags: "useLogFrequencyScale (PaintEngine_init K) \<and> usePanning (PaintEngine_init K)
  \<and> \<not> bufferSwapPending (PaintEngine_init K) \<and> frontBufferIndex (PaintEngine_init K) = 0
  \<and> backBufferIndex (PaintEngine_init K) = 1"
  by (simp add: PaintEngine_init_def setCanvasRegion_def setFrequencyRange_def Let_def)

theorem canvas_roundtrip_witness:
  "canvasBottom (PaintEngine_init exampleHeader) < canvasTop (PaintEngine_init exampleHeader)
   \<and> canvasBottom (PaintEngine_init exampleHeader) \<le> 25
   \<and> 25 \<le> canvasTop (PaintEngine_init exampleHeader)
   \<and> frequencyToCanvasY (setFrequencyRange 100 8000 ((PaintEngine_init exampleHeader)\<lparr>useLogFrequencyScale := True\<rparr>))
        (canvasYToFrequency (setFrequencyRange 100 8000 ((PaintEngine_init exampleHeader)\<lparr>useLogFrequencyScale := True\<rparr>)) 25) = 25
   \<and> frequencyToCanvasY (setFrequencyRange 100 8000 ((PaintEngine_init exampleHeader)\<lparr>useLogFrequencyScale := False\<rparr>))
        (canvasYToFrequency (setFrequencyRange 100 8000 ((PaintEngine_init exampleHeader)\<lparr>useLogFrequencyScale := False\<rparr>)) 25) = 25"
proof -
  have c: "canvasBottom (PaintEngine_init exampleHeader) < canvasTop (PaintEngine_init exampleHeader)"
    and lo: "canvasBottom (PaintEngine_init exampleHeader) \<le> 25"
    and hi: "25 \<le> canvasTop (PaintEngine_init exampleHeader)"
    by (simp_all add: init_canvas)
  from canvas_roundtrip[OF c lo hi, of 100 8000 True] canvas_roundtrip[OF c lo hi, of 100 8000 False] c lo hi
  show ?thesis by simp
qed

subsection \<open>Frequency range\<close>

lemma setBackBuffer_frame:
  "oscillatorStates (setBackBuffer p s) = oscillatorStates s"
  "freeOscillatorIndices (setBackBuffer p s) = freeOscillatorIndices s"
  "frontBufferIndex (setBackBuffer p s) = frontBufferIndex s"
  "backBufferIndex (setBackBuffer p s) = backBufferIndex s"
  "bufferSwapPending (setBackBuffer p s) = bufferSwapPending s"
  "oscillatorPools (setBackBuffer p s) = (oscillatorPools s)[backBufferIndex s := p]"
  by (simp_all add: setBackBuffer_def)

lemma setFrontBuffer_frame:
  "oscillatorStates (setFrontBuffer p s) = oscillatorStates s"
  "freeOscillatorIndices (setFrontBuffer p s) = freeOscillatorIndices s"
  "frontBufferIndex (setFrontBuffer p s) = frontBufferIndex s"
  "backBufferIndex (setFrontBuffer p s) = backBufferIndex s"
  "bufferSwapPending (setFrontBuffer p s) = bufferSwapPending s"
  "oscillatorPools (setFrontBuffer p s) = (oscillatorPools s)[frontBufferIndex s := p]"
  by (simp_all add: setFrontBuffer_def)

lemma init_pool:
  "oscillatorStates (PaintEngine_init K) = replicate (MAX_OSCILLATORS K) defaultOscillatorState"
  "freeOscillatorIndices (PaintEngine_init K) = map int [0..<MAX_OSCILLATORS K]"
  "oscillatorPools (PaintEngine_init K) =
     [replicate (MAX_OSCILLATORS K) (defaultOscillator K), replicate (MAX_OSCILLATORS K) (defaultOscillator K)]"
  by (simp_all add: PaintEngine_init_def setCanvasRegion_def setFrequencyRange_def Let_def)

lemma setFrequencyRange_frame:
  "oscillatorStates (setFrequencyRange a b s) = oscillatorStates s"
  "freeOscillatorIndices (setFrequencyRange a b s) = freeOscillatorIndices s"
  "oscillatorPools (setFrequencyRange a b s) = oscillatorPools s"
  "frontBufferIndex (setFrequencyRange a b s) = frontBufferIndex s"
  "backBufferIndex (setFrequencyRange a b s) = backBufferIndex s"
  by (simp_all add: setFrequencyRange_def Let_def)

lemma activateOscillator_states:
  "0 \<le> index \<Longrightarrow> index < int (MAX_OSCILLATORS K) \<Longrightarrow>
   oscillatorStates (activateOscillator K now index params s) =
     (oscillatorStates s)[nat index :=
        (activate (oscillatorStates s ! nat index))
          \<lparr>targetFrequency := paramFrequency params, targetAmplitude := paramAmplitude params,
           targetPan := paramPan params, lastUsedTime := now\<rparr>]"
  by (simp add: activateOscillator_def Let_def setBackBuffer_frame)

lemma activateOscillator_free:
  "freeOscillatorIndices (activateOscillator K now index params s) = freeOscillatorIndices s"
  by (simp add: activateOscillator_def Let_def setBackBuffer_frame)

lemma activateOscillator_targetFrequency:
  assumes "0 \<le> index" "index < int (MAX_OSCILLATORS K)" "length (oscillatorStates s) = MAX_OSCILLATORS K"
  shows "targetFrequency (oscillatorStates (activateOscillator K now index params s) ! nat index)
         = paramFrequency params"
  using assms by (simp add: activateOscillator_states)

lemma influence_states:
  "oscillatorStates (updateOscillatorWithInfluence K now idx pt params s) = oscillatorStates s
   \<or> (\<exists>f a p. oscillatorStates (updateOscillatorWithInfluence K now idx pt params s) =
         (oscillatorStates s)[nat idx := (oscillatorStates s ! nat idx)
            \<lparr>targetFrequency := jlimit 20 20000 f, targetAmplitude := jlimit 0 1 a,
             targetPan := jlimit 0 1 p, lastUsedTime := now\<rparr>])"
  unfolding updateOscillatorWithInfluence_def Let_def
  by (simp add: setBackBuffer_frame) blast

lemma influence_targetFrequency:
  assumes j: "j < length (oscillatorStates s)"
  shows "targetFrequency (oscillatorStates (updateOscillatorWithInfluence K now idx pt params s) ! j)
           = targetFrequency (oscillatorStates s ! j)
         \<or> (20 \<le> targetFrequency (oscillatorStates (updateOscillatorWithInfluence K now idx pt params s) ! j)
            \<and> targetFrequency (oscillatorStates (updateOscillatorWithInfluence K now idx pt params s) ! j) \<le> 20000)"
proof -
  have b: "\<And>x. 20 \<le> jlimit 20 20000 x \<and> jlimit 20 20000 x \<le> 20000"
    using jlimit_bounds[of 20 20000] by simp
  from influence_states[of K now idx pt params s] show ?thesis
  proof
    assume "oscillatorStates (updateOscillatorWithInfluence K now idx pt params s) = oscillatorStates s"
    then show ?thesis by simp
  next
    assume "\<exists>f a p. oscillatorStates (updateOscillatorWithInfluence K now idx pt params s) =
         (oscillatorStates s)[nat idx := (oscillatorStates s ! nat idx)
            \<lparr>targetFrequency := jlimit 20 20000 f, targetAmplitude := jlimit 0 1 a,
             targetPan := jlimit 0 1 p, lastUsedTime := now\<rparr>]"
    then obtain f a p where eq: "oscillatorStates (updateOscillatorWithInfluence K now idx pt params s) =
         (oscillatorStates s)[nat idx := (oscillatorStates s ! nat idx)
            \<lparr>targetFrequency := jlimit 20 20000 f, targetAmplitude := jlimit 0 1 a,
             targetPan := jlimit 0 1 p, lastUsedTime := now\<rparr>]" by blast
    show ?thesis
    proof (cases "j = nat idx")
      case True
      with j eq b[of f] show ?thesis by simp
    next
      case False
      with eq show ?thesis by simp
    qed
  qed
qed

lemma updatePhase_increment:
  assumes "0 < sr" "1 \<le> frequency osc" "frequency osc \<le> 22000"
  shows "0 < phaseIncrement (updatePhase sr osc) \<and> phaseIncrement (updatePhase sr osc) \<le> 22000 / sr"
  using assms by (simp add: updatePhase_def Let_def divide_right_mono)

lemma upt_2: "[0..<2] = [0, Suc 0]"
  by (simp add: numeral_2_eq_2)

lemma wideEngine_freq: "canvasYToFrequency wideEngine (- 50) = 1"
  by (simp add: wideEngine_def canvasYToFrequency_def Let_def setFrequencyRange_canvas init_canvas init_flags
      jlimit_def setFrequencyRange_def)

lemma wideEngine_pool:
  "freeOscillatorIndices wideEngine = [0, 1]"
  "oscillatorStates wideEngine = [defaultOscillatorState, defaultOscillatorState]"
  by (simp_all add: wideEngine_def setFrequencyRange_frame init_pool exampleHeader_max upt_2 numeral_2_eq_2)

subsection \<open>The shape of the engine\<close>

lemma list_all_list_update: "list_all P xs \<Longrightarrow> P x \<Longrightarrow> list_all P (xs[i := x])"
  by (induction xs arbitrary: i) (auto split: nat.splits)

lemma wellFormed_back_length: "wellFormed K s \<Longrightarrow> length (getBackBuffer s) = MAX_OSCILLATORS K"
  by (simp add: wellFormed_def getBackBuffer_def list_all_length)

lemma wellFormed_front_length: "wellFormed K s \<Longrightarrow> length (getFrontBuffer s) = MAX_OSCILLATORS K"
  by (simp add: wellFormed_def getFrontBuffer_def list_all_length)

lemma wellFormed_setBackBuffer:
  "wellFormed K s \<Longrightarrow> length p = MAX_OSCILLATORS K \<Longrightarrow> wellFormed K (setBackBuffer p s)"
  by (simp add: wellFormed_def setBackBuffer_frame list_all_list_update)

lemma wellFormed_setFrontBuffer:
  "wellFormed K s \<Longrightarrow> length p = MAX_OSCILLATORS K \<Longrightarrow> wellFormed K (setFrontBuffer p s)"
  by (simp add: wellFormed_def setFrontBuffer_frame list_all_list_update)

lemma wellFormed_states_update:
  "wellFormed K s \<Longrightarrow> length sts = MAX_OSCILLATORS K \<Longrightarrow> wellFormed K (s\<lparr>oscillatorStates := sts\<rparr>)"
  by (simp add: wellFormed_def)

lemma wellFormed_init: "wellFormed K (PaintEngine_init K)"
  by (simp add: wellFormed_def init_pool init_flags)

lemma wellFormed_allocate: "wellFormed K s \<Longrightarrow> wellFormed K (snd (allocateOscillator K s))"
  by (simp add: allocateOscillator_def wellFormed_def)

lemma wellFormed_activate: "wellFormed K s \<Longrightarrow> wellFormed K (activateOscillator K now index params s)"
proof -
  assume wf: "wellFormed K s"
  show ?thesis
  proof (cases "index < 0 \<or> index \<ge> int (MAX_OSCILLATORS K)")
    case True
    then show ?thesis using wf by (simp add: activateOscillator_def)
  next
    case False
    define s1 where "s1 = s\<lparr>oscillatorStates := (oscillatorStates s)[nat index :=
        (activate (oscillatorStates s ! nat index))
          \<lparr>targetFrequency := paramFrequency params, targetAmplitude := paramAmplitude params,
           targetPan := paramPan params, lastUsedTime := now\<rparr>]\<rparr>"
    have wf1: "wellFormed K s1"
      unfolding s1_def using wf by (intro wellFormed_states_update) (simp_all add: wellFormed_def)
    have "activateOscillator K now index params s
          = setBackBuffer ((getBackBuffer s1)[nat index := setParameters params (getBackBuffer s1 ! nat index)]) s1"
      using False by (simp add: activateOscillator_def Let_def s1_def)
    then show ?thesis using wf1 by (simp add: wellFormed_setBackBuffer wellFormed_back_length)
  qed
qed

lemma wellFormed_release: "wellFormed K s \<Longrightarrow> wellFormed K (releaseOscillator K index s)"
  by (simp add: releaseOscillator_def Let_def wellFormed_def)

lemma wellFormed_influence:
  "wellFormed K s \<Longrightarrow> wellFormed K (updateOscillatorWithInfluence K now idx pt params s)"
  unfolding updateOscillatorWithInfluence_def Let_def
  by (auto intro!: wellFormed_states_update wellFormed_setBackBuffer
      simp: wellFormed_back_length setBackBuffer_frame)
     (simp add: wellFormed_def)

lemma wellFormed_influence_fold:
  "wellFormed K s \<Longrightarrow>
   wellFormed K (fold (\<lambda>oscIndex. updateOscillatorWithInfluence K now oscIndex pt params) nearby s)"
  by (induction nearby arbitrary: s) (simp_all add: wellFormed_influence)

lemma wellFormed_incremental:
  "wellFormed K s \<Longrightarrow> wellFormed K (updateOscillatorsIncremental K now nearby pt s)"
  unfolding updateOscillatorsIncremental_def Let_def
  using wellFormed_allocate[of K s]
  by (auto simp: wellFormed_influence_fold wellFormed_activate split: prod.splits)

lemma wellFormed_processSlot:
  "wellFormed K s \<Longrightarrow> wellFormed K (fst (processSlot K now hasRight i (s, l, r, c)))"
  unfolding processSlot_def Let_def
  by (auto intro!: wellFormed_setFrontBuffer split: prod.splits
      simp: wellFormed_front_length getFrontBuffer_def)
     (simp_all add: wellFormed_def list_all_length)

lemma wellFormed_slots:
  "wellFormed K (fst acc) \<Longrightarrow> wellFormed K (fst (fold (processSlot K now hasRight) is acc))"
proof (induction "is" arbitrary: acc)
  case Nil
  then show ?case by simp
next
  case (Cons i "is")
  obtain s l r c where acc: "acc = (s, l, r, c)" by (cases acc) auto
  with Cons.prems have "wellFormed K (fst (processSlot K now hasRight i acc))"
    by (simp add: wellFormed_processSlot)
  then show ?case using Cons.IH by simp
qed

lemma wellFormed_processSample:
  "wellFormed K s \<Longrightarrow> wellFormed K (fst (processSample K now hasRight sample s))"
  unfolding processSample_def Let_def
  using wellFormed_slots[of K "(s, 0, 0, 0)" now hasRight "[0..<MAX_OSCILLATORS K]"]
  by (auto split: prod.splits simp: wellFormed_def)

lemma wellFormed_sampleLoop:
  "wellFormed K s \<Longrightarrow> wellFormed K (fst (sampleLoop K now hasRight samples s))"
proof (induction samples arbitrary: s)
  case Nil
  then show ?case by simp
next
  case (Cons sample samples)
  from Cons.prems have "wellFormed K (fst (processSample K now hasRight sample s))"
    by (rule wellFormed_processSample)
  from Cons.IH[OF this] show ?case
    by (cases "processSample K now hasRight sample s";
        cases "sampleLoop K now hasRight samples (fst (processSample K now hasRight sample s))") simp
qed

lemma optimizeLoop_length: "length (optimizeLoop K is c b) = length b"
  by (induction K "is" c b rule: optimizeLoop.induct) simp_all

lemma wellFormed_requestBufferSwap: "wellFormed K s \<Longrightarrow> wellFormed K (requestBufferSwap s)"
  by (simp add: requestBufferSwap_def wellFormed_def)

lemma wellFormed_swap: "wellFormed K s \<Longrightarrow> wellFormed K (swapBuffersIfPending s)"
  by (auto simp: swapBuffersIfPending_def wellFormed_def Let_def)

lemma wellFormed_optimize: "wellFormed K s \<Longrightarrow> wellFormed K (optimizeOscillatorPool K s)"
  unfolding optimizeOscillatorPool_def
  by (intro wellFormed_requestBufferSwap wellFormed_setBackBuffer)
     (simp_all add: optimizeLoop_length wellFormed_back_length)

lemma wellFormed_blockCounter: "wellFormed K s \<Longrightarrow> wellFormed K (s\<lparr>blockCounter := n\<rparr>)"
  by (simp add: wellFormed_def)

lemma wellFormed_processBlock:
  "wellFormed K s \<Longrightarrow> wellFormed K (fst (processBlock K now numSamples numChannels s))"
  unfolding processBlock_def Let_def
  using wellFormed_sampleLoop[OF wellFormed_swap, of K s now "numChannels > 1" "[0..<numSamples]"]
  by (auto split: prod.splits simp: wellFormed_optimize wellFormed_blockCounter)

lemma wellFormed_prepareToPlay: "wellFormed K s \<Longrightarrow> wellFormed K (prepareToPlay K sr n s)"
  by (simp add: prepareToPlay_def wellFormed_def list_all_length)

lemma wellFormed_releaseResources: "wellFormed K s \<Longrightarrow> wellFormed K (releaseResources K s)"
  by (simp add: releaseResources_def wellFormed_def list_all_length)

lemma wellFormed_clearCanvas: "wellFormed K s \<Longrightarrow> wellFormed K (clearCanvas K s)"
proof -
  assume wf: "wellFormed K s"
  have "wellFormed K (s\<lparr>currentStroke := None, canvasRegions := Map.empty\<rparr>)"
    using wf by (simp add: wellFormed_def)
  then have "wellFormed K (setBackBuffer (map (resetOscillator K) (getBackBuffer s))
          (s\<lparr>currentStroke := None, canvasRegions := Map.empty\<rparr>))"
    using wf by (intro wellFormed_setBackBuffer) (simp_all add: wellFormed_back_length)
  then have "wellFormed K ((setBackBuffer (map (resetOscillator K) (getBackBuffer s))
          (s\<lparr>currentStroke := None, canvasRegions := Map.empty\<rparr>))\<lparr>activeOscillators := 0\<rparr>)"
    by (simp add: wellFormed_def)
  then show ?thesis unfolding clearCanvas_def by (rule wellFormed_requestBufferSwap)
qed

lemma getOrCreateRegion_frame:
  "oscillatorPools (snd (getOrCreateRegion K x y s)) = oscillatorPools s"
  "oscillatorStates (snd (getOrCreateRegion K x y s)) = oscillatorStates s"
  "freeOscillatorIndices (snd (getOrCreateRegion K x y s)) = freeOscillatorIndices s"
  "frontBufferIndex (snd (getOrCreateRegion K x y s)) = frontBufferIndex s"
  "backBufferIndex (snd (getOrCreateRegion K x y s)) = backBufferIndex s"
  "engineIsActive (snd (getOrCreateRegion K x y s)) = engineIsActive s"
  "sampleRate (snd (getOrCreateRegion K x y s)) = sampleRate s"
  "currentStroke (snd (getOrCreateRegion K x y s)) = currentStroke s"
  by (simp_all add: getOrCreateRegion_def Let_def split: option.splits)

lemma endStroke_frame:
  "oscillatorPools (endStroke K s) = oscillatorPools s"
  "oscillatorStates (endStroke K s) = oscillatorStates s"
  "freeOscillatorIndices (endStroke K s) = freeOscillatorIndices s"
  "frontBufferIndex (endStroke K s) = frontBufferIndex s"
  "backBufferIndex (endStroke K s) = backBufferIndex s"
  "engineIsActive (endStroke K s) = engineIsActive s"
  "sampleRate (endStroke K s) = sampleRate s"
  by (simp_all add: endStroke_def Let_def getOrCreateRegion_frame split: option.splits list.splits prod.splits)
     (metis getOrCreateRegion_frame snd_conv)+


lemma beginStroke_frame:
  "oscillatorPools (beginStroke K pt s) = oscillatorPools s"
  "oscillatorStates (beginStroke K pt s) = oscillatorStates s"
  "freeOscillatorIndices (beginStroke K pt s) = freeOscillatorIndices s"
  "frontBufferIndex (beginStroke K pt s) = frontBufferIndex s"
  "backBufferIndex (beginStroke K pt s) = backBufferIndex s"
  "engineIsActive (beginStroke K pt s) = engineIsActive s"
  "sampleRate (beginStroke K pt s) = sampleRate s"
  by (simp_all add: beginStroke_def Let_def endStroke_frame)


lemma wellFormed_pool_fields:
  assumes "oscillatorPools s' = oscillatorPools s" "oscillatorStates s' = oscillatorStates s"
    "frontBufferIndex s' = frontBufferIndex s" "backBufferIndex s' = backBufferIndex s"
  shows "wellFormed K s' = wellFormed K s"
  using assms by (simp add: wellFormed_def)

lemma wellFormed_beginStroke: "wellFormed K s \<Longrightarrow> wellFormed K (beginStroke K pt s)"
  by (simp add: wellFormed_pool_fields[of "beginStroke K pt s" s] beginStroke_frame)

lemma wellFormed_endStroke: "wellFormed K s \<Longrightarrow> wellFormed K (endStroke K s)"
  by (simp add: wellFormed_pool_fields[of "endStroke K s" s] endStroke_frame)

lemma wellFormed_updateStroke:
  assumes "wellFormed K s"
  shows "wellFormed K (updateStroke K now nearby pos p s)"
proof (cases "currentStroke s")
  case None
  then show ?thesis using assms by (simp add: updateStroke_def wellFormed_beginStroke)
next
  case (Some stroke)
  have "wellFormed K (s\<lparr>currentStroke := Some (stroke\<lparr>points := points stroke @
           [\<lparr>position = pos, pressure = p, colorIsTransparentBlack = False, colorHue = 0\<rparr>]\<rparr>)\<rparr>)"
    using assms by (simp add: wellFormed_def)
  then show ?thesis using Some by (simp add: updateStroke_def Let_def wellFormed_incremental)
qed

lemma wellFormed_applyCall: "wellFormed K s \<Longrightarrow> wellFormed K (applyCall K c s)"
proof (cases c)
  case (SetFrequencyRange a b)
  assume "wellFormed K s"
  then show ?thesis using SetFrequencyRange by (simp add: wellFormed_def setFrequencyRange_frame)
next
  case (SetCanvasRegion a b c d)
  assume "wellFormed K s"
  then show ?thesis using SetCanvasRegion by (simp add: wellFormed_def setCanvasRegion_def)
next
  case (SetActive b)
  assume "wellFormed K s"
  then show ?thesis using SetActive by (simp add: wellFormed_def)
qed (simp_all add: wellFormed_allocate wellFormed_activate wellFormed_incremental wellFormed_release
      wellFormed_processSample wellFormed_processBlock wellFormed_prepareToPlay
      wellFormed_releaseResources wellFormed_clearCanvas wellFormed_beginStroke
      wellFormed_updateStroke wellFormed_endStroke)

lemma wellFormed_fold: "wellFormed K s \<Longrightarrow> wellFormed K (fold (applyCall K) calls s)"
  by (induction calls arbitrary: s) (simp_all add: wellFormed_applyCall)

lemma wellFormed_reachable: "wellFormed K (runCalls K calls (PaintEngine_init K))"
  unfolding runCalls_def by (rule wellFormed_fold) (rule wellFormed_init)

subsection \<open>Silence\<close>

lemma processSlot_frame:
  "sampleRate (fst (processSlot K now hr i (s, l, r, c))) = sampleRate s"
  "usePanning (fst (processSlot K now hr i (s, l, r, c))) = usePanning s"
  "frontBufferIndex (fst (processSlot K now hr i (s, l, r, c))) = frontBufferIndex s"
  "backBufferIndex (fst (processSlot K now hr i (s, l, r, c))) = backBufferIndex s"
  "masterGain (fst (processSlot K now hr i (s, l, r, c))) = masterGain s"
  by (simp_all add: processSlot_def Let_def setFrontBuffer_def split: prod.splits)

lemma silent_step:
  assumes "amplitude osc = 0" "oscTargetAmplitude osc = 0"
  shows "getSample (smoothParameters sf osc) = 0
       \<and> amplitude (updatePhase sr (smoothParameters sf osc)) = 0
       \<and> oscTargetAmplitude (updatePhase sr (smoothParameters sf osc)) = 0"
  using assms by (simp add: getSample_def smoothParameters_def updatePhase_def Let_def)

lemma processSlot_pools:
  "oscillatorPools (fst (processSlot K now hr i (s, l, r, c))) = oscillatorPools s
   \<or> (isActive (oscillatorStates s ! i)
       \<and> oscillatorPools (fst (processSlot K now hr i (s, l, r, c)))
           = (oscillatorPools s)[frontBufferIndex s :=
               (getFrontBuffer s)[i := updatePhase (sampleRate s)
                   (smoothParameters (smoothingFactorDefault K) (getFrontBuffer s ! i))]])"
  by (simp add: processSlot_def Let_def setFrontBuffer_def split: prod.splits)

lemma processSlot_front:
  assumes wf: "wellFormed K s"
  shows "getFrontBuffer (fst (processSlot K now hr i (s, l, r, c))) = getFrontBuffer s
   \<or> getFrontBuffer (fst (processSlot K now hr i (s, l, r, c)))
       = (getFrontBuffer s)[i := updatePhase (sampleRate s)
             (smoothParameters (smoothingFactorDefault K) (getFrontBuffer s ! i))]"
proof -
  have f: "frontBufferIndex s < length (oscillatorPools s)" using wf by (simp add: wellFormed_def)
  from processSlot_pools[of K now hr i s l r c] show ?thesis
  proof
    assume "oscillatorPools (fst (processSlot K now hr i (s, l, r, c))) = oscillatorPools s"
    then show ?thesis by (simp add: getFrontBuffer_def processSlot_frame)
  next
    assume "isActive (oscillatorStates s ! i)
       \<and> oscillatorPools (fst (processSlot K now hr i (s, l, r, c)))
           = (oscillatorPools s)[frontBufferIndex s :=
               (getFrontBuffer s)[i := updatePhase (sampleRate s)
                   (smoothParameters (smoothingFactorDefault K) (getFrontBuffer s ! i))]]"
    then show ?thesis using f by (simp add: getFrontBuffer_def processSlot_frame)
  qed
qed

lemma processSlot_quiet:
  assumes wf: "wellFormed K s" and i: "i < MAX_OSCILLATORS K"
    and silent: "silentPool (getFrontBuffer s)"
  shows "silentPool (getFrontBuffer (fst (processSlot K now hr i (s, l, r, c))))
       \<and> fst (snd (processSlot K now hr i (s, l, r, c))) = l
       \<and> fst (snd (snd (processSlot K now hr i (s, l, r, c)))) = r"
proof -
  have "i < length (getFrontBuffer s)" using wellFormed_front_length[OF wf] i by simp
  with silent have z: "amplitude (getFrontBuffer s ! i) = 0" "oscTargetAmplitude (getFrontBuffer s ! i) = 0"
    by (simp_all add: silentPool_def list_all_length)
  note st = silent_step[OF z, of "smoothingFactorDefault K" "sampleRate s"]
  have mix: "fst (snd (processSlot K now hr i (s, l, r, c))) = l
       \<and> fst (snd (snd (processSlot K now hr i (s, l, r, c)))) = r"
    using st by (simp add: processSlot_def Let_def split: prod.splits)
  have "silentPool ((getFrontBuffer s)[i := updatePhase (sampleRate s)
                   (smoothParameters (smoothingFactorDefault K) (getFrontBuffer s ! i))])"
    using silent st unfolding silentPool_def by (intro list_all_list_update) simp_all
  with processSlot_front[OF wf, of now hr i l r c] silent mix show ?thesis by auto
qed

lemma slots_quiet:
  assumes "wellFormed K (fst acc)" "silentPool (getFrontBuffer (fst acc))"
    "\<forall>i \<in> set is. i < MAX_OSCILLATORS K"
  shows "silentPool (getFrontBuffer (fst (fold (processSlot K now hr) is acc)))
       \<and> fst (snd (fold (processSlot K now hr) is acc)) = fst (snd acc)
       \<and> fst (snd (snd (fold (processSlot K now hr) is acc))) = fst (snd (snd acc))"
  using assms
proof (induction "is" arbitrary: acc)
  case Nil
  then show ?case by simp
next
  case (Cons i "is")
  obtain s l r c where acc: "acc = (s, l, r, c)" by (cases acc) auto
  let ?a1 = "processSlot K now hr i (s, l, r, c)"
  have wf: "wellFormed K s" and sil: "silentPool (getFrontBuffer s)"
    and i: "i < MAX_OSCILLATORS K" and rest: "\<forall>i \<in> set is. i < MAX_OSCILLATORS K"
    using Cons.prems by (simp_all add: acc)
  have wf1: "wellFormed K (fst ?a1)" using wf by (rule wellFormed_processSlot)
  note one = processSlot_quiet[OF wf i sil, of now hr l r c]
  from one have sil1: "silentPool (getFrontBuffer (fst ?a1))" by simp
  from Cons.IH[OF wf1 sil1 rest] one show ?case unfolding acc by simp
qed

lemma processSample_quiet:
  assumes wf: "wellFormed K s" and silent: "silentPool (getFrontBuffer s)"
  shows "silentPool (getFrontBuffer (fst (processSample K now hr sample s)))
       \<and> snd (processSample K now hr sample s) = (0, 0)"
proof -
  let ?r = "fold (processSlot K now hr) [0..<MAX_OSCILLATORS K] (s, 0, 0, 0)"
  have "silentPool (getFrontBuffer (fst ?r)) \<and> fst (snd ?r) = 0 \<and> fst (snd (snd ?r)) = 0"
    using slots_quiet[of K "(s, 0, 0, 0)" "[0..<MAX_OSCILLATORS K]" now hr] wf silent by simp
  then show ?thesis
    by (cases ?r; cases "getNextValue (masterGain (fst ?r))")
       (simp add: processSample_def Let_def getFrontBuffer_def)
qed

lemma sampleLoop_quiet:
  assumes "wellFormed K s" "silentPool (getFrontBuffer s)"
  shows "snd (sampleLoop K now hr samples s) = (replicate (length samples) 0, replicate (length samples) 0)"
  using assms
proof (induction samples arbitrary: s)
  case Nil
  then show ?case by simp
next
  case (Cons sample samples)
  let ?s1 = "fst (processSample K now hr sample s)"
  have wf1: "wellFormed K ?s1" using Cons.prems(1) by (rule wellFormed_processSample)
  note one = processSample_quiet[OF Cons.prems, of now hr sample]
  from one have sil1: "silentPool (getFrontBuffer ?s1)" by simp
  from Cons.IH[OF wf1 sil1] one show ?case
    by (cases "processSample K now hr sample s"; cases "sampleLoop K now hr samples ?s1") simp
qed

lemma processBlock_quiet:
  assumes wf: "wellFormed K s" and silent: "silentPool (getFrontBuffer (swapBuffersIfPending s))"
  shows "snd (processBlock K now numSamples numChannels s) = (replicate numSamples 0, replicate numSamples 0)"
proof (cases "engineIsActive s")
  case False
  then show ?thesis by (simp add: processBlock_def)
next
  case True
  have wf1: "wellFormed K (swapBuffersIfPending s)" using wf by (rule wellFormed_swap)
  from sampleLoop_quiet[OF wf1 silent, of now "numChannels > 1" "[0..<numSamples]"] True
  show ?thesis
    by (cases "sampleLoop K now (numChannels > 1) [0..<numSamples] (swapBuffersIfPending s)")
       (simp add: processBlock_def Let_def)
qed

lemma silentPool_default:
  "amplitude (defaultOscillator K) = 0 \<Longrightarrow> oscTargetAmplitude (defaultOscillator K) = 0 \<Longrightarrow>
   silentPool (replicate n (defaultOscillator K))"
  by (simp add: silentPool_def list_all_length)

lemma prepareToPlay_quiet:
  assumes wf: "wellFormed K s"
    and d: "amplitude (defaultOscillator K) = 0" "oscTargetAmplitude (defaultOscillator K) = 0"
  shows "silentPool (getFrontBuffer (swapBuffersIfPending (prepareToPlay K sr n s)))"
proof -
  have i: "frontBufferIndex s < length (oscillatorPools s)" "backBufferIndex s < length (oscillatorPools s)"
    using wf by (simp_all add: wellFormed_def)
  have "getFrontBuffer (swapBuffersIfPending (prepareToPlay K sr n s))
        = replicate (length (oscillatorPools s ! (if bufferSwapPending s then backBufferIndex s else frontBufferIndex s)))
            (defaultOscillator K)"
    using i by (simp add: swapBuffersIfPending_def Let_def getFrontBuffer_def prepareToPlay_def map_replicate_const)
  then show ?thesis using d by (simp add: silentPool_default)
qed

subsection \<open>Clearing the canvas\<close>

lemma requestBufferSwap_eq: "requestBufferSwap s = s\<lparr>bufferSwapPending := True\<rparr>"
  by (cases "bufferSwapPending s") (simp_all add: requestBufferSwap_def)

lemma map_resetOscillator: "map (resetOscillator K) xs = replicate (length xs) (defaultOscillator K)"
  by (induction xs) (simp_all add: resetOscillator_def)

lemma clearCanvas_eq:
  "clearCanvas K s =
     s\<lparr>currentStroke := None, canvasRegions := Map.empty,
       oscillatorPools := (oscillatorPools s)[backBufferIndex s :=
          replicate (length (getBackBuffer s)) (defaultOscillator K)],
       activeOscillators := 0, bufferSwapPending := True\<rparr>"
  by (simp add: clearCanvas_def requestBufferSwap_eq setBackBuffer_def map_resetOscillator
      getBackBuffer_def)


subsection \<open>The partition of the pool\<close>

lemma poolPartition_iff:
  "poolPartition K s \<longleftrightarrow>
     distinct (freeOscillatorIndices s)
     \<and> (\<forall>j \<in> set (freeOscillatorIndices s). 0 \<le> j \<and> j < int (MAX_OSCILLATORS K))
     \<and> (\<forall>i < MAX_OSCILLATORS K. (int i \<in> set (freeOscillatorIndices s)) \<noteq> inUse (oscillatorStates s ! i))"
  by (auto simp: poolPartition_def list_all_iff)

lemma poolPartition_frame:
  assumes "freeOscillatorIndices s' = freeOscillatorIndices s"
    and "\<forall>i < MAX_OSCILLATORS K. inUse (oscillatorStates s' ! i) = inUse (oscillatorStates s ! i)"
  shows "poolPartition K s' = poolPartition K s"
  using assms by (simp add: poolPartition_iff)

lemma nth_update_inUse:
  "inUse x = inUse (xs ! i) \<Longrightarrow> inUse (xs[i := x] ! j) = inUse (xs ! j)"
  by (cases "i < length xs"; cases "i = j") (simp_all add: list_update_beyond)

lemma updateEnvelope_inUse: "inUse (updateEnvelope K sr st) = inUse st"
  by (simp add: updateEnvelope_def Let_def split: EnvelopePhase.splits)

lemma poolPartition_init: "poolPartition K (PaintEngine_init K)"
  by (auto simp: poolPartition_iff init_pool distinct_map inj_on_def defaultOscillatorState_def)

text \<open>Popping the free list and activating the popped slot.\<close>

lemma poolPartition_pop_activate:
  assumes wf: "wellFormed K s" and pp: "poolPartition K s" and ne: "freeOscillatorIndices s \<noteq> []"
  shows "poolPartition K
           (activateOscillator K now (last (freeOscillatorIndices s)) params
              (s\<lparr>freeOscillatorIndices := butlast (freeOscillatorIndices s)\<rparr>))"
proof -
  let ?f = "freeOscillatorIndices s"
  let ?n = "MAX_OSCILLATORS K"
  let ?s1 = "s\<lparr>freeOscillatorIndices := butlast ?f\<rparr>"
  let ?s2 = "activateOscillator K now (last ?f) params ?s1"
  from pp have d: "distinct ?f" and v: "\<forall>j \<in> set ?f. 0 \<le> j \<and> j < int ?n"
    and p: "\<forall>i < ?n. (int i \<in> set ?f) \<noteq> inUse (oscillatorStates s ! i)"
    by (simp_all add: poolPartition_iff)
  have len: "length (oscillatorStates s) = ?n" using wf by (simp add: wellFormed_def)
  have lastin: "last ?f \<in> set ?f" using ne by simp
  with v have lv: "0 \<le> last ?f" "last ?f < int ?n" by auto
  have split: "?f = butlast ?f @ [last ?f]" using ne by simp
  have notin: "last ?f \<notin> set (butlast ?f)"
    using d split by (metis distinct_append distinct.simps(2) disjoint_iff list.set_intros(1) not_distinct_conv_prefix)
  have mem: "\<And>j. j \<in> set (butlast ?f) \<longleftrightarrow> j \<in> set ?f \<and> j \<noteq> last ?f"
  proof -
    fix j
    have "set ?f = set (butlast ?f) \<union> {last ?f}" by (subst split) simp
    with notin show "j \<in> set (butlast ?f) \<longleftrightarrow> j \<in> set ?f \<and> j \<noteq> last ?f" by auto
  qed
  have free2: "freeOscillatorIndices ?s2 = butlast ?f" by (simp add: activateOscillator_free)
  have st2: "oscillatorStates ?s2 = (oscillatorStates s)[nat (last ?f) :=
        (activate (oscillatorStates s ! nat (last ?f)))
          \<lparr>targetFrequency := paramFrequency params, targetAmplitude := paramAmplitude params,
           targetPan := paramPan params, lastUsedTime := now\<rparr>]"
    using lv by (simp add: activateOscillator_states)
  have "distinct (butlast ?f)" using d by (rule distinct_butlast)
  moreover have "\<forall>j \<in> set (butlast ?f). 0 \<le> j \<and> j < int ?n" using v mem by blast
  moreover have "\<forall>i < ?n. (int i \<in> set (butlast ?f)) \<noteq> inUse (oscillatorStates ?s2 ! i)"
  proof (intro allI impI)
    fix i assume i: "i < ?n"
    show "(int i \<in> set (butlast ?f)) \<noteq> inUse (oscillatorStates ?s2 ! i)"
    proof (cases "i = nat (last ?f)")
      case True
      then have "int i = last ?f" using lv by simp
      then show ?thesis using notin True i len by (simp add: st2 activate_def)
    next
      case False
      then have "int i \<noteq> last ?f" by auto
      then show ?thesis using False p i by (simp add: st2 mem)
    qed
  qed
  ultimately show ?thesis by (simp add: poolPartition_iff free2)
qed

text \<open>Activating a slot that is in use already (a stolen one), or no slot at all.\<close>

lemma poolPartition_steal_activate:
  assumes wf: "wellFormed K s" and pp: "poolPartition K s" and e: "freeOscillatorIndices s = []"
  shows "poolPartition K (activateOscillator K now index params s)"
proof (cases "index < 0 \<or> index \<ge> int (MAX_OSCILLATORS K)")
  case True
  then show ?thesis using pp by (simp add: activateOscillator_def)
next
  case False
  then have idx: "0 \<le> index" "index < int (MAX_OSCILLATORS K)" by auto
  from pp e have used: "\<forall>i < MAX_OSCILLATORS K. inUse (oscillatorStates s ! i)"
    by (simp add: poolPartition_iff)
  have "nat index < MAX_OSCILLATORS K" using idx by simp
  with used have u: "inUse (oscillatorStates s ! nat index)" by blast
  have "poolPartition K (activateOscillator K now index params s) = poolPartition K s"
  proof (rule poolPartition_frame)
    show "freeOscillatorIndices (activateOscillator K now index params s) = freeOscillatorIndices s"
      by (rule activateOscillator_free)
    show "\<forall>i < MAX_OSCILLATORS K. inUse (oscillatorStates (activateOscillator K now index params s) ! i)
            = inUse (oscillatorStates s ! i)"
      using u by (simp add: activateOscillator_states[OF idx] nth_update_inUse activate_def)
  qed
  with pp show ?thesis by simp
qed

lemma influence_free:
  "freeOscillatorIndices (updateOscillatorWithInfluence K now idx pt params s) = freeOscillatorIndices s"
  by (simp add: updateOscillatorWithInfluence_def Let_def setBackBuffer_frame)

lemma influence_inUse:
  "inUse (oscillatorStates (updateOscillatorWithInfluence K now idx pt params s) ! i)
   = inUse (oscillatorStates s ! i)"
  using influence_states[of K now idx pt params s] by (auto simp: nth_update_inUse)

lemma poolPartition_influence:
  "poolPartition K (updateOscillatorWithInfluence K now idx pt params s) = poolPartition K s"
  by (rule poolPartition_frame) (simp_all add: influence_free influence_inUse)

lemma poolPartition_influence_fold:
  "poolPartition K (fold (\<lambda>oscIndex. updateOscillatorWithInfluence K now oscIndex pt params) nearby s)
   = poolPartition K s"
  by (induction nearby arbitrary: s) (simp_all add: poolPartition_influence)

lemma poolPartition_incremental:
  assumes wf: "wellFormed K s" and pp: "poolPartition K s"
  shows "poolPartition K (updateOscillatorsIncremental K now nearby pt s)"
proof (cases "nearby = [] \<or> shouldAllocateNewOscillator s pt")
  case False
  then show ?thesis using pp
    by (simp add: updateOscillatorsIncremental_def Let_def poolPartition_influence_fold)
next
  case alloc: True
  show ?thesis
  proof (cases "freeOscillatorIndices s = []")
    case True
    then have "updateOscillatorsIncremental K now nearby pt s =
        (if findBestOscillatorForReplacement K s \<ge> 0
         then activateOscillator K now (findBestOscillatorForReplacement K s) (strokePointToAudioParams s pt) s
         else s)"
      using alloc by (simp add: updateOscillatorsIncremental_def Let_def allocateOscillator_def)
    then show ?thesis using poolPartition_steal_activate[OF wf pp True] pp by simp
  next
    case False
    from pp False have "0 \<le> last (freeOscillatorIndices s)"
      by (simp add: poolPartition_iff)
    then have "updateOscillatorsIncremental K now nearby pt s =
        activateOscillator K now (last (freeOscillatorIndices s)) (strokePointToAudioParams s pt)
          (s\<lparr>freeOscillatorIndices := butlast (freeOscillatorIndices s)\<rparr>)"
      using alloc False by (simp add: updateOscillatorsIncremental_def Let_def allocateOscillator_def)
    then show ?thesis using poolPartition_pop_activate[OF wf pp False] by simp
  qed
qed

lemma poolPartition_release:
  "poolPartition K (releaseOscillator K index s) = poolPartition K s"
  by (rule poolPartition_frame)
     (simp_all add: releaseOscillator_def Let_def nth_update_inUse release_def)

lemma isActive_iff: "isActive st \<longleftrightarrow> envelopePhase st \<noteq> Inactive"
  by (simp add: isActive_def)

lemma processSlot_pool:
  "(isActive (oscillatorStates s ! i)
      \<and> freeOscillatorIndices (fst (processSlot K now hr i (s, l, r, c))) = freeOscillatorIndices s
      \<and> oscillatorStates (fst (processSlot K now hr i (s, l, r, c))) =
          (oscillatorStates s)[i := (updateEnvelope K (sampleRate s) (oscillatorStates s ! i))\<lparr>lastUsedTime := now\<rparr>])
   \<or> (envelopePhase (oscillatorStates s ! i) = Inactive \<and> inUse (oscillatorStates s ! i)
      \<and> freeOscillatorIndices (fst (processSlot K now hr i (s, l, r, c))) = freeOscillatorIndices s @ [int i]
      \<and> oscillatorStates (fst (processSlot K now hr i (s, l, r, c))) =
          (oscillatorStates s)[i := (oscillatorStates s ! i)\<lparr>inUse := False\<rparr>])
   \<or> (envelopePhase (oscillatorStates s ! i) = Inactive \<and> \<not> inUse (oscillatorStates s ! i)
      \<and> fst (processSlot K now hr i (s, l, r, c)) = s)"
  by (simp add: processSlot_def Let_def isActive_iff setFrontBuffer_frame split: prod.splits)

lemma poolPartition_processSlot:
  assumes wf: "wellFormed K s" and pp: "poolPartition K s" and i: "i < MAX_OSCILLATORS K"
  shows "poolPartition K (fst (processSlot K now hr i (s, l, r, c)))"
proof -
  let ?s' = "fst (processSlot K now hr i (s, l, r, c))"
  let ?f = "freeOscillatorIndices s"
  have len: "length (oscillatorStates s) = MAX_OSCILLATORS K" using wf by (simp add: wellFormed_def)
  from pp have d: "distinct ?f" and v: "\<forall>j \<in> set ?f. 0 \<le> j \<and> j < int (MAX_OSCILLATORS K)"
    and p: "\<forall>i < MAX_OSCILLATORS K. (int i \<in> set ?f) \<noteq> inUse (oscillatorStates s ! i)"
    by (simp_all add: poolPartition_iff)
  from processSlot_pool[of s i K now hr l r c]
  consider
    (active) "freeOscillatorIndices ?s' = ?f"
      "oscillatorStates ?s' =
          (oscillatorStates s)[i := (updateEnvelope K (sampleRate s) (oscillatorStates s ! i))\<lparr>lastUsedTime := now\<rparr>]"
  | (reclaim) "inUse (oscillatorStates s ! i)" "freeOscillatorIndices ?s' = ?f @ [int i]"
      "oscillatorStates ?s' = (oscillatorStates s)[i := (oscillatorStates s ! i)\<lparr>inUse := False\<rparr>]"
  | (idle) "?s' = s"
    by blast
  then show ?thesis
  proof cases
    case active
    have "poolPartition K ?s' = poolPartition K s"
      by (rule poolPartition_frame) (simp_all add: active nth_update_inUse updateEnvelope_inUse)
    with pp show ?thesis by simp
  next
    case reclaim
    from p i reclaim(1) have notin: "int i \<notin> set ?f" by auto
    have "\<forall>j < MAX_OSCILLATORS K. (int j \<in> set (?f @ [int i])) \<noteq> inUse (oscillatorStates ?s' ! j)"
    proof (intro allI impI)
      fix j assume j: "j < MAX_OSCILLATORS K"
      show "(int j \<in> set (?f @ [int i])) \<noteq> inUse (oscillatorStates ?s' ! j)"
        using p j i len by (cases "j = i") (simp_all add: reclaim(3))
    qed
    then show ?thesis using d v notin i by (simp add: poolPartition_iff reclaim(2))
  next
    case idle
    with pp show ?thesis by simp
  qed
qed

lemma poolPartition_slots:
  assumes "wellFormed K (fst acc)" "poolPartition K (fst acc)" "\<forall>i \<in> set is. i < MAX_OSCILLATORS K"
  shows "poolPartition K (fst (fold (processSlot K now hr) is acc))"
  using assms
proof (induction "is" arbitrary: acc)
  case Nil
  then show ?case by simp
next
  case (Cons i "is")
  obtain s l r c where acc: "acc = (s, l, r, c)" by (cases acc) auto
  have "wellFormed K (fst (processSlot K now hr i acc))"
    using Cons.prems(1) acc by (simp add: wellFormed_processSlot)
  moreover have "poolPartition K (fst (processSlot K now hr i acc))"
    using Cons.prems acc by (simp add: poolPartition_processSlot)
  ultimately show ?case using Cons.IH Cons.prems(3) by simp
qed

lemma processSample_pool:
  "freeOscillatorIndices (fst (processSample K now hr sample s))
     = freeOscillatorIndices (fst (fold (processSlot K now hr) [0..<MAX_OSCILLATORS K] (s, 0, 0, 0)))
   \<and> oscillatorStates (fst (processSample K now hr sample s))
     = oscillatorStates (fst (fold (processSlot K now hr) [0..<MAX_OSCILLATORS K] (s, 0, 0, 0)))"
  by (simp add: processSample_def Let_def split: prod.splits)

lemma poolPartition_processSample:
  assumes wf: "wellFormed K s" and pp: "poolPartition K s"
  shows "poolPartition K (fst (processSample K now hr sample s))"
proof -
  have "poolPartition K (fst (fold (processSlot K now hr) [0..<MAX_OSCILLATORS K] (s, 0, 0, 0)))"
    using wf pp by (intro poolPartition_slots) simp_all
  moreover have "poolPartition K (fst (processSample K now hr sample s))
        = poolPartition K (fst (fold (processSlot K now hr) [0..<MAX_OSCILLATORS K] (s, 0, 0, 0)))"
    by (rule poolPartition_frame) (simp_all add: processSample_pool)
  ultimately show ?thesis by simp
qed

lemma poolPartition_sampleLoop:
  "wellFormed K s \<Longrightarrow> poolPartition K s \<Longrightarrow> poolPartition K (fst (sampleLoop K now hr samples s))"
proof (induction samples arbitrary: s)
  case Nil
  then show ?case by simp
next
  case (Cons sample samples)
  have "wellFormed K (fst (processSample K now hr sample s))"
    using Cons.prems(1) by (rule wellFormed_processSample)
  moreover have "poolPartition K (fst (processSample K now hr sample s))"
    using Cons.prems by (rule poolPartition_processSample)
  ultimately have "poolPartition K (fst (sampleLoop K now hr samples (fst (processSample K now hr sample s))))"
    by (rule Cons.IH)
  then show ?case
    by (cases "processSample K now hr sample s";
        cases "sampleLoop K now hr samples (fst (processSample K now hr sample s))") simp
qed

lemma swap_pool:
  "freeOscillatorIndices (swapBuffersIfPending s) = freeOscillatorIndices s"
  "oscillatorStates (swapBuffersIfPending s) = oscillatorStates s"
  by (simp_all add: swapBuffersIfPending_def Let_def)

lemma optimize_pool:
  "freeOscillatorIndices (optimizeOscillatorPool K s) = freeOscillatorIndices s"
  "oscillatorStates (optimizeOscillatorPool K s) = oscillatorStates s"
  by (simp_all add: optimizeOscillatorPool_def requestBufferSwap_eq setBackBuffer_frame)

lemma processBlock_pool:
  "freeOscillatorIndices (fst (processBlock K now numSamples numChannels s)) =
     (if engineIsActive s
      then freeOscillatorIndices (fst (sampleLoop K now (numChannels > 1) [0..<numSamples] (swapBuffersIfPending s)))
      else freeOscillatorIndices s)
   \<and> oscillatorStates (fst (processBlock K now numSamples numChannels s)) =
     (if engineIsActive s
      then oscillatorStates (fst (sampleLoop K now (numChannels > 1) [0..<numSamples] (swapBuffersIfPending s)))
      else oscillatorStates s)"
  by (simp add: processBlock_def Let_def optimize_pool split: prod.splits)

lemma poolPartition_processBlock:
  assumes wf: "wellFormed K s" and pp: "poolPartition K s"
  shows "poolPartition K (fst (processBlock K now numSamples numChannels s))"
proof (cases "engineIsActive s")
  case False
  then show ?thesis using pp by (simp add: processBlock_def)
next
  case True
  have "poolPartition K (swapBuffersIfPending s) = poolPartition K s"
    by (rule poolPartition_frame) (simp_all add: swap_pool)
  with pp have "poolPartition K (fst (sampleLoop K now (numChannels > 1) [0..<numSamples] (swapBuffersIfPending s)))"
    using wellFormed_swap[OF wf] by (intro poolPartition_sampleLoop) simp_all
  moreover have "poolPartition K (fst (processBlock K now numSamples numChannels s))
     = poolPartition K (fst (sampleLoop K now (numChannels > 1) [0..<numSamples] (swapBuffersIfPending s)))"
    by (rule poolPartition_frame) (simp_all add: processBlock_pool True)
  ultimately show ?thesis by simp
qed

lemma poolPartition_updateStroke:
  assumes wf: "wellFormed K s" and pp: "poolPartition K s"
  shows "poolPartition K (updateStroke K now nearby pos p s)"
proof (cases "currentStroke s")
  case None
  have "poolPartition K (beginStroke K
          \<lparr>position = pos, pressure = p, colorIsTransparentBlack = defaultColorIsTransparentBlack K,
           colorHue = defaultColorHue K\<rparr> s) = poolPartition K s"
    by (rule poolPartition_frame) (simp_all add: beginStroke_frame)
  then show ?thesis using None pp by (simp add: updateStroke_def)
next
  case (Some stroke)
  let ?s1 = "s\<lparr>currentStroke := Some (stroke\<lparr>points := points stroke @
           [\<lparr>position = pos, pressure = p, colorIsTransparentBlack = False, colorHue = 0\<rparr>]\<rparr>)\<rparr>"
  have wf1: "wellFormed K ?s1" using wf by (simp add: wellFormed_def)
  have pp1: "poolPartition K ?s1" using pp by (simp add: poolPartition_def)
  from poolPartition_incremental[OF wf1 pp1] Some show ?thesis
    by (simp add: updateStroke_def Let_def)
qed

lemma poolPartition_applyCall:
  assumes wf: "wellFormed K s" and pp: "poolPartition K s" and lvl: "isEngineLevel c"
  shows "poolPartition K (applyCall K c s)"
proof (cases c)
  case AllocateOscillator
  with lvl show ?thesis by simp
next
  case (ActivateOscillator now index params)
  with lvl show ?thesis by simp
next
  case (UpdateOscillatorsIncremental now nearby pt)
  then show ?thesis using poolPartition_incremental[OF wf pp] by simp
next
  case (BeginStroke pt)
  have "poolPartition K (beginStroke K pt s) = poolPartition K s"
    by (rule poolPartition_frame) (simp_all add: beginStroke_frame)
  then show ?thesis using BeginStroke pp by simp
next
  case (UpdateStroke now nearby pos p)
  then show ?thesis using poolPartition_updateStroke[OF wf pp] by simp
next
  case EndStroke
  have "poolPartition K (endStroke K s) = poolPartition K s"
    by (rule poolPartition_frame) (simp_all add: endStroke_frame)
  then show ?thesis using EndStroke pp by simp
next
  case (ReleaseOscillator index)
  then show ?thesis using pp by (simp add: poolPartition_release)
next
  case (ProcessSample now hr sample)
  then show ?thesis using poolPartition_processSample[OF wf pp] by simp
next
  case (ProcessBlock now numSamples numChannels)
  then show ?thesis using poolPartition_processBlock[OF wf pp] by simp
next
  case (PrepareToPlay sr n)
  have "poolPartition K (prepareToPlay K sr n s) = poolPartition K s"
    by (rule poolPartition_frame) (simp_all add: prepareToPlay_def)
  then show ?thesis using PrepareToPlay pp by simp
next
  case ReleaseResources
  have "poolPartition K (releaseResources K s) = poolPartition K s"
    by (rule poolPartition_frame) (simp_all add: releaseResources_def)
  then show ?thesis using ReleaseResources pp by simp
next
  case ClearCanvas
  have "poolPartition K (clearCanvas K s) = poolPartition K s"
    by (rule poolPartition_frame) (simp_all add: clearCanvas_eq)
  then show ?thesis using ClearCanvas pp by simp
next
  case (SetFrequencyRange a b)
  have "poolPartition K (setFrequencyRange a b s) = poolPartition K s"
    by (rule poolPartition_frame) (simp_all add: setFrequencyRange_frame)
  then show ?thesis using SetFrequencyRange pp by simp
next
  case (SetCanvasRegion a b c d)
  have "poolPartition K (setCanvasRegion a b c d s) = poolPartition K s"
    by (rule poolPartition_frame) (simp_all add: setCanvasRegion_def)
  then show ?thesis using SetCanvasRegion pp by simp
next
  case (SetActive b)
  have "poolPartition K (s\<lparr>engineIsActive := b\<rparr>) = poolPartition K s"
    by (rule poolPartition_frame) simp_all
  then show ?thesis using SetActive pp by simp
qed

lemma poolPartition_fold:
  "wellFormed K s \<Longrightarrow> poolPartition K s \<Longrightarrow> list_all isEngineLevel calls \<Longrightarrow>
   poolPartition K (fold (applyCall K) calls s)"
proof (induction calls arbitrary: s)
  case Nil
  then show ?case by simp
next
  case (Cons c calls)
  have "wellFormed K (applyCall K c s)" using Cons.prems(1) by (rule wellFormed_applyCall)
  moreover have "poolPartition K (applyCall K c s)"
    using Cons.prems by (intro poolPartition_applyCall) simp_all
  ultimately show ?case using Cons.IH Cons.prems(3) by simp
qed

text \<open>
  C1, amended. From the constructed engine, after every sequence of calls in which
  \<^verbatim>\<open>allocateOscillator\<close> and \<^verbatim>\<open>activateOscillator\<close> occur only as the pair that
  \<^verbatim>\<open>updateOscillatorsIncremental\<close> makes of them (allocate, then activate the returned
  index), together with \<^verbatim>\<open>releaseOscillator\<close>, the per-sample step and whole blocks of
  \<^verbatim>\<open>processBlock\<close> and the other public calls, every index below \<^verbatim>\<open>MAX_OSCILLATORS\<close>
  is on the free list exactly when its slot is not in use, and the free list has no
  duplicates.
\<close>

theorem pool_partition_invariant:
  "list_all isEngineLevel calls \<Longrightarrow> poolPartition K (runCalls K calls (PaintEngine_init K))"
  unfolding runCalls_def by (intro poolPartition_fold wellFormed_init poolPartition_init)

theorem pool_partition_invariant_witness:
  "list_all isEngineLevel
     [UpdateOscillatorsIncremental 0 [] (examplePoint 0 0 1), ReleaseOscillator 1, ProcessSample 0 True 0]
   \<and> poolPartition exampleHeader
       (runCalls exampleHeader
          [UpdateOscillatorsIncremental 0 [] (examplePoint 0 0 1), ReleaseOscillator 1, ProcessSample 0 True 0]
          (PaintEngine_init exampleHeader))"
proof -
  have h: "list_all isEngineLevel
     [UpdateOscillatorsIncremental 0 [] (examplePoint 0 0 1), ReleaseOscillator 1, ProcessSample 0 True 0]"
    by simp
  from pool_partition_invariant[OF h] h show ?thesis by simp
qed

lemma init_example_pool:
  "freeOscillatorIndices (PaintEngine_init exampleHeader) = [0, 1]"
  "oscillatorStates (PaintEngine_init exampleHeader) = [defaultOscillatorState, defaultOscillatorState]"
  by (simp_all add: init_pool exampleHeader_max upt_2 numeral_2_eq_2)

text \<open>
  C1, as stated, fails: the sequences range over \<^verbatim>\<open>allocateOscillator\<close> and
  \<^verbatim>\<open>activateOscillator\<close> as separate operations. After \<^verbatim>\<open>allocateOscillator\<close> alone
  the popped index is neither on the free list nor in use; after
  \<^verbatim>\<open>activateOscillator\<close> alone on a free index the index is both.
\<close>

theorem pool_partition_counterexample:
  "\<not> poolPartition exampleHeader (runCalls exampleHeader [AllocateOscillator] (PaintEngine_init exampleHeader))
   \<and> \<not> poolPartition exampleHeader
        (runCalls exampleHeader
           [ActivateOscillator 0 0 \<lparr>paramFrequency = 440, paramAmplitude = 1, paramPan = 1 / 2, paramTime = 0\<rparr>]
           (PaintEngine_init exampleHeader))"
proof -
  have a: "\<not> poolPartition exampleHeader (runCalls exampleHeader [AllocateOscillator] (PaintEngine_init exampleHeader))"
    by (simp add: runCalls_def allocateOscillator_def init_example_pool poolPartition_def exampleHeader_max
        upt_2 defaultOscillatorState_def)
  have b: "\<not> poolPartition exampleHeader
        (runCalls exampleHeader
           [ActivateOscillator 0 0 \<lparr>paramFrequency = 440, paramAmplitude = 1, paramPan = 1 / 2, paramTime = 0\<rparr>]
           (PaintEngine_init exampleHeader))"
    by (simp add: runCalls_def activateOscillator_states activateOscillator_free init_example_pool
        poolPartition_def exampleHeader_max upt_2 activate_def)
  from a b show ?thesis by simp
qed

subsection \<open>Lazy reclaim\<close>

lemma processSlot_states:
  "oscillatorStates (fst (processSlot K now hr i (s, l, r, c)))
   = (oscillatorStates s)[i := slotStep K (sampleRate s) now (oscillatorStates s ! i)]"
  using processSlot_pool[of s i K now hr l r c]
  by (auto simp: slotStep_def isActive_iff)

lemma processSlot_free:
  "freeOscillatorIndices (fst (processSlot K now hr i (s, l, r, c)))
   = freeOscillatorIndices s @ (if reclaimable (oscillatorStates s ! i) then [int i] else [])"
  using processSlot_pool[of s i K now hr l r c]
  by (auto simp: reclaimable_def isActive_iff)

lemma slots_pool:
  assumes "distinct is" "\<forall>i \<in> set is. i < length (oscillatorStates (fst acc))"
  shows "sampleRate (fst (fold (processSlot K now hr) is acc)) = sampleRate (fst acc)
       \<and> length (oscillatorStates (fst (fold (processSlot K now hr) is acc))) = length (oscillatorStates (fst acc))
       \<and> freeOscillatorIndices (fst (fold (processSlot K now hr) is acc))
           = freeOscillatorIndices (fst acc)
             @ map int (filter (\<lambda>j. reclaimable (oscillatorStates (fst acc) ! j)) is)
       \<and> (\<forall>j < length (oscillatorStates (fst acc)).
             oscillatorStates (fst (fold (processSlot K now hr) is acc)) ! j
             = (if j \<in> set is then slotStep K (sampleRate (fst acc)) now (oscillatorStates (fst acc) ! j)
                else oscillatorStates (fst acc) ! j))"
  using assms
proof (induction "is" arbitrary: acc)
  case Nil
  then show ?case by simp
next
  case (Cons i "is")
  obtain s l r c where acc: "acc = (s, l, r, c)" by (cases acc) auto
  let ?a1 = "processSlot K now hr i (s, l, r, c)"
  let ?s1 = "fst ?a1"
  let ?end = "fst (fold (processSlot K now hr) is ?a1)"
  have st1: "oscillatorStates ?s1 = (oscillatorStates s)[i := slotStep K (sampleRate s) now (oscillatorStates s ! i)]"
    by (simp add: processSlot_states)
  have fr1: "freeOscillatorIndices ?s1
      = freeOscillatorIndices s @ (if reclaimable (oscillatorStates s ! i) then [int i] else [])"
    by (simp add: processSlot_free)
  have sr1: "sampleRate ?s1 = sampleRate s" by (simp add: processSlot_frame)
  have i: "i < length (oscillatorStates s)" "i \<notin> set is" "distinct is"
    and bound: "\<forall>j \<in> set is. j < length (oscillatorStates s)"
    using Cons.prems by (simp_all add: acc)
  have len1: "length (oscillatorStates ?s1) = length (oscillatorStates s)" by (simp add: st1)
  have rest: "\<forall>j \<in> set is. j < length (oscillatorStates ?s1)"
    unfolding len1 using bound .
  note IH = Cons.IH[OF i(3) rest]
  have same: "oscillatorStates ?s1 ! j = oscillatorStates s ! j" if "j \<in> set is" for j
  proof -
    from that i(2) have "i \<noteq> j" by auto
    then show ?thesis by (simp add: st1)
  qed
  have filt: "filter (\<lambda>j. reclaimable (oscillatorStates ?s1 ! j)) is
              = filter (\<lambda>j. reclaimable (oscillatorStates s ! j)) is"
    by (rule filter_cong) (simp_all add: same)
  have a: "sampleRate ?end = sampleRate s"
    using IH sr1 by simp
  have b: "length (oscillatorStates ?end) = length (oscillatorStates s)"
    using IH len1 by simp
  have c: "freeOscillatorIndices ?end
           = freeOscillatorIndices s
             @ map int (filter (\<lambda>j. reclaimable (oscillatorStates s ! j)) (i # is))"
    using IH fr1 filt by simp
  have d: "\<forall>j < length (oscillatorStates s).
             oscillatorStates ?end ! j
             = (if j \<in> set (i # is) then slotStep K (sampleRate s) now (oscillatorStates s ! j)
                else oscillatorStates s ! j)"
  proof (intro allI impI)
    fix j assume j: "j < length (oscillatorStates s)"
    then have j1: "j < length (oscillatorStates ?s1)" by (simp add: len1)
    from IH j1 have e: "oscillatorStates ?end ! j
             = (if j \<in> set is then slotStep K (sampleRate ?s1) now (oscillatorStates ?s1 ! j)
                else oscillatorStates ?s1 ! j)" by blast
    show "oscillatorStates ?end ! j
             = (if j \<in> set (i # is) then slotStep K (sampleRate s) now (oscillatorStates s ! j)
                else oscillatorStates s ! j)"
    proof (cases "j \<in> set is")
      case True
      then have "j \<noteq> i" using i(2) by auto
      then show ?thesis using e True same[OF True] sr1 by simp
    next
      case False
      then show ?thesis using e i(1) j by (cases "j = i") (simp_all add: st1)
    qed
  qed
  from a b c d show ?case unfolding acc by simp
qed

lemma processSample_states:
  assumes wf: "wellFormed K s" and j: "j < MAX_OSCILLATORS K"
  shows "oscillatorStates (fst (processSample K now hr sample s)) ! j
         = slotStep K (sampleRate s) now (oscillatorStates s ! j)"
proof -
  have len: "length (oscillatorStates s) = MAX_OSCILLATORS K" using wf by (simp add: wellFormed_def)
  from slots_pool[of "[0..<MAX_OSCILLATORS K]" "(s, 0, 0, 0)" K now hr] len j
  show ?thesis by (simp add: processSample_pool)
qed

lemma processSample_free:
  assumes wf: "wellFormed K s"
  shows "freeOscillatorIndices (fst (processSample K now hr sample s))
         = freeOscillatorIndices s
           @ map int (filter (\<lambda>j. reclaimable (oscillatorStates s ! j)) [0..<MAX_OSCILLATORS K])"
proof -
  have len: "length (oscillatorStates s) = MAX_OSCILLATORS K" using wf by (simp add: wellFormed_def)
  from slots_pool[of "[0..<MAX_OSCILLATORS K]" "(s, 0, 0, 0)" K now hr] len
  show ?thesis by (simp add: processSample_pool)
qed

lemma processSample_frame:
  "sampleRate (fst (processSample K now hr sample s))
     = sampleRate (fst (fold (processSlot K now hr) [0..<MAX_OSCILLATORS K] (s, 0, 0, 0)))"
  by (simp add: processSample_def Let_def split: prod.splits)

lemma slots_sampleRate:
  "sampleRate (fst (fold (processSlot K now hr) is acc)) = sampleRate (fst acc)"
proof (induction "is" arbitrary: acc)
  case Nil
  show ?case by simp
next
  case (Cons i "is")
  obtain s' l r c where "acc = (s', l, r, c)" by (cases acc) auto
  then show ?case using Cons[of "processSlot K now hr i acc"] by (simp add: processSlot_frame)
qed

lemma processSample_sampleRate:
  "sampleRate (fst (processSample K now hr sample s)) = sampleRate s"
  by (simp add: processSample_frame slots_sampleRate)

lemma slotStep_decay:
  assumes "envelopePhase st = Release" "envelopeValue st - releaseRate K / sr \<le> reclaimEpsilon K"
  shows "envelopePhase (slotStep K sr now st) = Inactive \<and> inUse (slotStep K sr now st) = inUse st"
  using assms by (simp add: slotStep_def isActive_def updateEnvelope_def Let_def)

lemma slotStep_still_releasing:
  assumes "envelopePhase st = Release" "\<not> envelopeValue st - releaseRate K / sr \<le> reclaimEpsilon K"
  shows "envelopePhase (slotStep K sr now st) = Release \<and> inUse (slotStep K sr now st) = inUse st"
  using assms by (simp add: slotStep_def isActive_def updateEnvelope_def Let_def)

lemma slotStep_reclaim:
  assumes "reclaimable st"
  shows "\<not> inUse (slotStep K sr now st)"
  using assms by (simp add: slotStep_def isActive_def reclaimable_def)

lemma processSample_free_mem:
  assumes wf: "wellFormed K s" and i: "i < MAX_OSCILLATORS K"
  shows "int i \<in> set (freeOscillatorIndices (fst (processSample K now hr sample s)))
         \<longleftrightarrow> int i \<in> set (freeOscillatorIndices s) \<or> reclaimable (oscillatorStates s ! i)"
  using i by (auto simp: processSample_free[OF wf])

text \<open>
  C3, amended. \<^verbatim>\<open>releaseOscillator\<close> on a slot sets its envelope phase to Release and
  leaves the free list and the slot's \<^verbatim>\<open>inUse\<close> as they are. One pass of the sample
  loop puts an index on the free list only if its slot was Inactive and in use before
  that pass, and then clears \<^verbatim>\<open>inUse\<close>. A releasing slot whose envelope step stays
  above the reclaim epsilon stays in Release and off the free list. When the step
  reaches the epsilon, the slot is Inactive and still in use after that pass and off
  the free list, and the next pass of the sample loop, whichever sample of whichever
  block it is, puts the index on the free list and clears \<^verbatim>\<open>inUse\<close>.
\<close>

theorem lazy_reclaim:
  assumes wf: "wellFormed K s" and i: "i < MAX_OSCILLATORS K"
  shows "freeOscillatorIndices (releaseOscillator K (int i) s) = freeOscillatorIndices s
       \<and> inUse (oscillatorStates (releaseOscillator K (int i) s) ! i) = inUse (oscillatorStates s ! i)
       \<and> envelopePhase (oscillatorStates (releaseOscillator K (int i) s) ! i) = Release
       \<and> (int i \<notin> set (freeOscillatorIndices s)
            \<and> int i \<in> set (freeOscillatorIndices (fst (processSample K now hr sample s)))
          \<longrightarrow> envelopePhase (oscillatorStates s ! i) = Inactive \<and> inUse (oscillatorStates s ! i)
              \<and> \<not> inUse (oscillatorStates (fst (processSample K now hr sample s)) ! i))
       \<and> (envelopePhase (oscillatorStates s ! i) = Release \<and> int i \<notin> set (freeOscillatorIndices s)
            \<and> \<not> envelopeValue (oscillatorStates s ! i) - releaseRate K / sampleRate s \<le> reclaimEpsilon K
          \<longrightarrow> envelopePhase (oscillatorStates (fst (processSample K now hr sample s)) ! i) = Release
              \<and> int i \<notin> set (freeOscillatorIndices (fst (processSample K now hr sample s))))
       \<and> (envelopePhase (oscillatorStates s ! i) = Release \<and> inUse (oscillatorStates s ! i)
            \<and> int i \<notin> set (freeOscillatorIndices s)
            \<and> envelopeValue (oscillatorStates s ! i) - releaseRate K / sampleRate s \<le> reclaimEpsilon K
          \<longrightarrow> envelopePhase (oscillatorStates (fst (processSample K now hr sample s)) ! i) = Inactive
              \<and> inUse (oscillatorStates (fst (processSample K now hr sample s)) ! i)
              \<and> int i \<notin> set (freeOscillatorIndices (fst (processSample K now hr sample s)))
              \<and> int i \<in> set (freeOscillatorIndices
                    (fst (processSample K now' hr sample' (fst (processSample K now hr sample s)))))
              \<and> \<not> inUse (oscillatorStates
                    (fst (processSample K now' hr sample' (fst (processSample K now hr sample s)))) ! i))"
proof -
  let ?s1 = "fst (processSample K now hr sample s)"
  let ?s2 = "fst (processSample K now' hr sample' ?s1)"
  let ?st = "oscillatorStates s ! i"
  have len: "length (oscillatorStates s) = MAX_OSCILLATORS K" using wf by (simp add: wellFormed_def)
  have wf1: "wellFormed K ?s1" using wf by (rule wellFormed_processSample)
  have st1: "oscillatorStates ?s1 ! i = slotStep K (sampleRate s) now ?st"
    using processSample_states[OF wf i] .
  have st2: "oscillatorStates ?s2 ! i = slotStep K (sampleRate ?s1) now' (oscillatorStates ?s1 ! i)"
    using processSample_states[OF wf1 i] .
  note m1 = processSample_free_mem[OF wf i, of now hr sample]
  note m2 = processSample_free_mem[OF wf1 i, of now' hr sample']
  have rel: "freeOscillatorIndices (releaseOscillator K (int i) s) = freeOscillatorIndices s
       \<and> inUse (oscillatorStates (releaseOscillator K (int i) s) ! i) = inUse ?st
       \<and> envelopePhase (oscillatorStates (releaseOscillator K (int i) s) ! i) = Release"
    using i len by (simp add: releaseOscillator_def Let_def release_def)
  have only: "envelopePhase ?st = Inactive \<and> inUse ?st \<and> \<not> inUse (oscillatorStates ?s1 ! i)"
    if "int i \<notin> set (freeOscillatorIndices s)" "int i \<in> set (freeOscillatorIndices ?s1)"
  proof -
    from that m1 have r: "reclaimable ?st" by simp
    then show ?thesis using slotStep_reclaim[OF r] by (simp add: st1 reclaimable_def)
  qed
  have wait: "envelopePhase (oscillatorStates ?s1 ! i) = Release \<and> int i \<notin> set (freeOscillatorIndices ?s1)"
    if "envelopePhase ?st = Release" "int i \<notin> set (freeOscillatorIndices s)"
       "\<not> envelopeValue ?st - releaseRate K / sampleRate s \<le> reclaimEpsilon K"
    using that slotStep_still_releasing[OF that(1,3)] m1 by (simp add: st1 reclaimable_def)
  have decay: "envelopePhase (oscillatorStates ?s1 ! i) = Inactive
              \<and> inUse (oscillatorStates ?s1 ! i)
              \<and> int i \<notin> set (freeOscillatorIndices ?s1)
              \<and> int i \<in> set (freeOscillatorIndices ?s2)
              \<and> \<not> inUse (oscillatorStates ?s2 ! i)"
    if "envelopePhase ?st = Release" "inUse ?st" "int i \<notin> set (freeOscillatorIndices s)"
       "envelopeValue ?st - releaseRate K / sampleRate s \<le> reclaimEpsilon K"
  proof -
    from slotStep_decay[OF that(1,4)] that(2)
    have a: "envelopePhase (oscillatorStates ?s1 ! i) = Inactive" "inUse (oscillatorStates ?s1 ! i)"
      by (simp_all add: st1)
    then have r: "reclaimable (oscillatorStates ?s1 ! i)" by (simp add: reclaimable_def)
    have b: "int i \<notin> set (freeOscillatorIndices ?s1)"
      using that(1,3) m1 by (simp add: reclaimable_def)
    have c: "int i \<in> set (freeOscillatorIndices ?s2)" using m2 r by simp
    have d: "\<not> inUse (oscillatorStates ?s2 ! i)" using slotStep_reclaim[OF r] by (simp add: st2)
    from a b c d show ?thesis by simp
  qed
  from rel only wait decay show ?thesis by blast
qed

lemma sampleLoop_fst:
  "fst (sampleLoop K now hr (sample # rest) s)
   = fst (sampleLoop K now hr rest (fst (processSample K now hr sample s)))"
  by (cases "processSample K now hr sample s";
      cases "sampleLoop K now hr rest (fst (processSample K now hr sample s))") simp

lemma releasingEngine_wf: "wellFormed exampleHeader releasingEngine"
  by (simp add: wellFormed_def releasingEngine_def init_pool init_flags exampleHeader_max)

lemma releasingEngine_pool:
  "freeOscillatorIndices releasingEngine = [0]"
  "oscillatorStates releasingEngine =
     [defaultOscillatorState, (soundingState 0)\<lparr>envelopePhase := Release, envelopeValue := 1 / 2\<rparr>]"
  "sampleRate releasingEngine = 10"
  "engineIsActive releasingEngine"
  "\<not> bufferSwapPending releasingEngine"
  by (simp_all add: releasingEngine_def init_flags)

theorem lazy_reclaim_witness:
  "wellFormed exampleHeader releasingEngine \<and> 1 < MAX_OSCILLATORS exampleHeader
   \<and> envelopePhase (oscillatorStates releasingEngine ! 1) = Release
   \<and> inUse (oscillatorStates releasingEngine ! 1)
   \<and> int 1 \<notin> set (freeOscillatorIndices releasingEngine)
   \<and> envelopeValue (oscillatorStates releasingEngine ! 1)
        - releaseRate exampleHeader / sampleRate releasingEngine \<le> reclaimEpsilon exampleHeader
   \<and> freeOscillatorIndices (releaseOscillator exampleHeader (int 1) releasingEngine)
        = freeOscillatorIndices releasingEngine
   \<and> int 1 \<notin> set (freeOscillatorIndices (fst (processSample exampleHeader 0 True 0 releasingEngine)))
   \<and> int 1 \<in> set (freeOscillatorIndices
         (fst (processSample exampleHeader 0 True 1 (fst (processSample exampleHeader 0 True 0 releasingEngine)))))"
proof -
  have h1: "1 < MAX_OSCILLATORS exampleHeader" by (simp add: exampleHeader_max)
  have h2: "envelopePhase (oscillatorStates releasingEngine ! 1) = Release
   \<and> inUse (oscillatorStates releasingEngine ! 1)
   \<and> int 1 \<notin> set (freeOscillatorIndices releasingEngine)
   \<and> envelopeValue (oscillatorStates releasingEngine ! 1)
        - releaseRate exampleHeader / sampleRate releasingEngine \<le> reclaimEpsilon exampleHeader"
    by (simp add: releasingEngine_pool soundingState_def exampleHeader_def)
  from lazy_reclaim[OF releasingEngine_wf h1, of 0 True 0 0 1] releasingEngine_wf h1 h2
  show ?thesis by blast
qed

text \<open>
  C3, as stated, fails in its last part: the index does not wait for the next block. In
  a block of two samples, a slot that is releasing when the block starts decays to
  Inactive at sample 0 and is pushed on the free list at sample 1 of the same block.
\<close>

theorem lazy_reclaim_counterexample:
  "envelopePhase (oscillatorStates releasingEngine ! 1) = Release
   \<and> freeOscillatorIndices releasingEngine = [0]
   \<and> freeOscillatorIndices (fst (processSample exampleHeader 0 True 0 releasingEngine)) = [0]
   \<and> envelopePhase (oscillatorStates (fst (processSample exampleHeader 0 True 0 releasingEngine)) ! 1) = Inactive
   \<and> freeOscillatorIndices (fst (processBlock exampleHeader 0 2 2 releasingEngine)) = [0, 1]
   \<and> \<not> inUse (oscillatorStates (fst (processBlock exampleHeader 0 2 2 releasingEngine)) ! 1)"
proof -
  let ?K = exampleHeader
  let ?s1 = "fst (processSample ?K 0 True 0 releasingEngine)"
  let ?s2 = "fst (processSample ?K 0 True (Suc 0) ?s1)"
  have wf1: "wellFormed ?K ?s1" using releasingEngine_wf by (rule wellFormed_processSample)
  have i0: "0 < MAX_OSCILLATORS ?K" and i1: "Suc 0 < MAX_OSCILLATORS ?K" by (simp_all add: exampleHeader_max)
  have d: "slotStep ?K 10 0 defaultOscillatorState = defaultOscillatorState"
    by (simp add: slotStep_def isActive_def defaultOscillatorState_def)
  have st1_0: "oscillatorStates ?s1 ! 0 = defaultOscillatorState"
    using processSample_states[OF releasingEngine_wf i0, of 0 True 0] by (simp add: releasingEngine_pool d)
  have st1_1: "oscillatorStates ?s1 ! Suc 0 =
      (soundingState 0)\<lparr>envelopePhase := Inactive, envelopeValue := 0, lastUsedTime := 0\<rparr>"
    using processSample_states[OF releasingEngine_wf i1, of 0 True 0]
    by (simp add: releasingEngine_pool slotStep_def isActive_def updateEnvelope_def Let_def
        soundingState_def exampleHeader_def)
  have f1: "freeOscillatorIndices ?s1 = [0]"
    by (simp add: processSample_free[OF releasingEngine_wf] releasingEngine_pool exampleHeader_max upt_2
        reclaimable_def defaultOscillatorState_def soundingState_def)
  have f2: "freeOscillatorIndices ?s2 = [0, 1]"
    by (simp add: processSample_free[OF wf1] f1 exampleHeader_max upt_2 st1_0 st1_1
        reclaimable_def defaultOscillatorState_def soundingState_def)
  have st2_1: "\<not> inUse (oscillatorStates ?s2 ! Suc 0)"
    using processSample_states[OF wf1 i1, of 0 True "Suc 0"]
    by (simp add: st1_1 slotStep_def isActive_def soundingState_def)
  have swap: "swapBuffersIfPending releasingEngine = releasingEngine"
    by (simp add: swapBuffersIfPending_def releasingEngine_pool)
  have sl: "fst (sampleLoop ?K 0 True [0, Suc 0] releasingEngine) = ?s2"
    by (simp only: sampleLoop_fst sampleLoop.simps(1) fst_conv)
  have blk: "freeOscillatorIndices (fst (processBlock ?K 0 2 2 releasingEngine)) = freeOscillatorIndices ?s2"
       "oscillatorStates (fst (processBlock ?K 0 2 2 releasingEngine)) = oscillatorStates ?s2"
    by (simp_all add: processBlock_pool releasingEngine_pool swap upt_2 sl del: sampleLoop.simps)
  show ?thesis
    using f1 f2 st1_1 st2_1 by (simp add: blk releasingEngine_pool)
qed

subsection \<open>The pan law of the mix\<close>

lemma processSlot_mix:
  assumes "isActive (oscillatorStates s ! i)" "usePanning s" "hr"
  shows "snd (processSlot K now hr i (s, l, r, c))
         = (l + getSample (smoothParameters (smoothingFactorDefault K) (getFrontBuffer s ! i))
                  * envelopeValue (updateEnvelope K (sampleRate s) (oscillatorStates s ! i)) * (1 - 1 / 2),
            r + getSample (smoothParameters (smoothingFactorDefault K) (getFrontBuffer s ! i))
                  * envelopeValue (updateEnvelope K (sampleRate s) (oscillatorStates s ! i)) * (1 / 2),
            c + 1)"
  using assms by (simp add: processSlot_def Let_def)

lemma hardLeftEngine_fields:
  "oscillatorStates hardLeftEngine = [defaultOscillatorState, soundingState 0]"
  "getFrontBuffer hardLeftEngine = [defaultOscillator exampleHeader, hardLeftOscillator]"
  "usePanning hardLeftEngine"
  "sampleRate hardLeftEngine = 44100"
  by (simp_all add: hardLeftEngine_def getFrontBuffer_def init_flags)

lemma hardLeft_sample:
  "getSample (smoothParameters sf hardLeftOscillator) = 1
   \<and> pan (smoothParameters sf hardLeftOscillator) = 0"
  by (simp add: getSample_def smoothParameters_def hardLeftOscillator_def)

text \<open>
  C2. The claim: with panning on and a stereo buffer, each active slot is mixed with its
  own smoothed pan \<open>p\<close>, as \<open>left += sample * (1 - p)\<close> and \<open>right += sample * p\<close>. The
  code mixes every slot with the constant 0.5. At the example slot, panned hard left
  (smoothed pan 0) with an enveloped sample of 1, the loop body adds 1/2 to each bus,
  where the pan law of the claim adds 1 to the left bus and 0 to the right.
\<close>

theorem pan_law_ignored:
  "pan (smoothParameters (smoothingFactorDefault exampleHeader) (getFrontBuffer hardLeftEngine ! 1)) = 0
   \<and> snd (processSlot exampleHeader 0 True 1 (hardLeftEngine, 0, 0, 0)) = (1 / 2, 1 / 2, 1)
   \<and> snd (processSlot exampleHeader 0 True 1 (hardLeftEngine, 0, 0, 0)) \<noteq> (0 + 1 * (1 - 0), 0 + 1 * 0, 1)"
proof -
  have a: "isActive (oscillatorStates hardLeftEngine ! 1)"
    by (simp add: hardLeftEngine_fields isActive_def soundingState_def)
  have e: "envelopeValue (updateEnvelope exampleHeader 44100 (soundingState 0)) = 1"
    by (simp add: updateEnvelope_def soundingState_def)
  have m: "snd (processSlot exampleHeader 0 True 1 (hardLeftEngine, 0, 0, 0)) = (1 / 2, 1 / 2, 1)"
    using processSlot_mix[OF a hardLeftEngine_fields(3), of True exampleHeader 0 0 0 0]
    by (simp add: hardLeftEngine_fields hardLeft_sample e)
  show ?thesis using m hardLeft_sample by (simp add: hardLeftEngine_fields)
qed

subsection \<open>Influence blending\<close>

lemma influence_weight:
  assumes "0 \<le> p" "p \<le> 1"
  shows "calculateInfluence K d p = p * exp (- ((d / INFLUENCE_RADIUS K) * (d / INFLUENCE_RADIUS K)))"
proof -
  have "exp (- ((d / INFLUENCE_RADIUS K) * (d / INFLUENCE_RADIUS K))) \<le> 1" by simp
  then have "p * exp (- ((d / INFLUENCE_RADIUS K) * (d / INFLUENCE_RADIUS K))) \<le> 1 * 1"
    using assms by (intro mult_mono) simp_all
  moreover have "0 \<le> p * exp (- ((d / INFLUENCE_RADIUS K) * (d / INFLUENCE_RADIUS K)))"
    using assms by simp
  ultimately show ?thesis by (simp add: calculateInfluence_def Let_def jlimit_def)
qed

lemma calculateDistance_at_left_edge:
  "calculateDistance s i (x, frequencyToCanvasY s (targetFrequency (oscillatorStates s ! i))) = \<bar>x\<bar>"
  by (simp add: calculateDistance_def Let_def)

lemma calculateDistance_spec_at_left_edge:
  "calculateDistance_spec s i (canvasLeft s, frequencyToCanvasY s (targetFrequency (oscillatorStates s ! i))) = 0"
  by (simp add: calculateDistance_spec_def Let_def)

lemma calculateInfluence_off_centre:
  assumes "0 < INFLUENCE_RADIUS K" "d \<noteq> 0"
  shows "calculateInfluence K d 1 < 1 \<and> calculateInfluence K 0 1 = 1"
proof -
  have "d / INFLUENCE_RADIUS K \<noteq> 0" using assms by simp
  then have "0 < (d / INFLUENCE_RADIUS K) * (d / INFLUENCE_RADIUS K)"
    by (simp only: zero_less_mult_iff) (auto simp: not_less less_le)
  then have "exp (- (d / INFLUENCE_RADIUS K) * (d / INFLUENCE_RADIUS K)) < 1" by simp
  moreover have "0 < exp (- (d / INFLUENCE_RADIUS K) * (d / INFLUENCE_RADIUS K))" by simp
  ultimately show ?thesis by (simp add: calculateInfluence_def Let_def jlimit_def)
qed

lemma fullEngine_canvasLeft: "canvasLeft fullEngine = - 100"
  by (simp add: fullEngine_def init_canvas)

lemma exp_minus_100: "exp (- (100::real)) < 1 / 50"
proof -
  have "1 + (100::real) \<le> exp 100" by (rule exp_ge_add_one_self)
  then have "(50::real) < exp 100" by simp
  then have "1 / exp (100::real) < 1 / 50" by (intro divide_strict_left_mono) simp_all
  then show ?thesis by (simp add: exp_minus inverse_eq_divide)
qed

lemma calculateInfluence_half:
  "calculateInfluence exampleHeader 100 (1 / 2) < 1 / 100 \<and> calculateInfluence exampleHeader 0 (1 / 2) = 1 / 2"
proof -
  have r: "INFLUENCE_RADIUS exampleHeader = 10" by (simp add: exampleHeader_def)
  have a: "calculateInfluence exampleHeader 100 (1 / 2) = 1 / 2 * exp (- 100)"
    using influence_weight[of "1 / 2" exampleHeader 100] by (simp add: r)
  have b: "calculateInfluence exampleHeader 0 (1 / 2) = 1 / 2"
    using influence_weight[of "1 / 2" exampleHeader 0] by simp
  show ?thesis using a b exp_minus_100 by simp
qed

lemma fullEngine_skips:
  "updateOscillatorsIncremental exampleHeader now [0]
     (examplePoint (- 100) (frequencyToCanvasY fullEngine (targetFrequency (oscillatorStates fullEngine ! 0))) (1 / 2))
     fullEngine = fullEngine"
proof -
  let ?y = "frequencyToCanvasY fullEngine (targetFrequency (oscillatorStates fullEngine ! 0))"
  have d: "calculateDistance fullEngine 0 (- 100, ?y) = 100"
    by (simp add: calculateDistance_at_left_edge)
  have st: "oscillatorStates fullEngine = [soundingState 5, soundingState 3]"
    "freeOscillatorIndices fullEngine = []"
    by (simp_all add: fullEngine_def)
  have act: "isActive (oscillatorStates fullEngine ! 0)"
    by (simp add: st isActive_def soundingState_def)
  have no: "\<not> shouldAllocateNewOscillator fullEngine (examplePoint (- 100) ?y (1 / 2))"
    by (simp add: shouldAllocateNewOscillator_def st examplePoint_def)
  have pos: "position (examplePoint (- 100) ?y (1 / 2)) = (- 100, ?y)"
    "pressure (examplePoint (- 100) ?y (1 / 2)) = 1 / 2"
    by (simp_all add: examplePoint_def)
  have "updateOscillatorWithInfluence exampleHeader now 0 (examplePoint (- 100) ?y (1 / 2)) params fullEngine
          = fullEngine" for params
    using act calculateInfluence_half
    by (simp add: updateOscillatorWithInfluence_def Let_def exampleHeader_max pos d del: One_nat_def)
  then show ?thesis using no by (simp add: updateOscillatorsIncremental_def Let_def)
qed

text \<open>
  C9. The claim: the distance of the blend weight is measured to the estimated position
  of the oscillator, whose X is \<^verbatim>\<open>canvasLeft\<close>. The code takes \<^verbatim>\<open>dx = position.x\<close>,
  which places the oscillator at canvas X 0. On the default canvas (left edge at -100),
  for a point on the left edge at the height of the oscillator, the distance of the
  claim is 0 and the weight is the pressure; the distance of the code is 100 and the
  weight is smaller. At pressure 1/2, with both slots in use and the free list empty,
  \<^verbatim>\<open>updateOscillatorsIncremental\<close> allocates nothing and passes the point to
  \<^verbatim>\<open>updateOscillatorWithInfluence\<close>: the weight of the claim is 1/2, the weight of the
  code is below the threshold 0.01, and the engine is left as it was.
\<close>

theorem influence_distance_ignores_canvasLeft:
  "canvasLeft fullEngine = - 100
   \<and> calculateDistance fullEngine 0
        (canvasLeft fullEngine, frequencyToCanvasY fullEngine (targetFrequency (oscillatorStates fullEngine ! 0)))
      = 100
   \<and> calculateDistance_spec fullEngine 0
        (canvasLeft fullEngine, frequencyToCanvasY fullEngine (targetFrequency (oscillatorStates fullEngine ! 0)))
      = 0
   \<and> calculateInfluence exampleHeader 100 1 < 1
   \<and> calculateInfluence exampleHeader 0 1 = 1
   \<and> \<not> shouldAllocateNewOscillator fullEngine
        (examplePoint (canvasLeft fullEngine)
           (frequencyToCanvasY fullEngine (targetFrequency (oscillatorStates fullEngine ! 0))) (1 / 2))
   \<and> isActive (oscillatorStates fullEngine ! 0)
   \<and> calculateInfluence exampleHeader 100 (1 / 2) < 1 / 100
   \<and> calculateInfluence exampleHeader 0 (1 / 2) = 1 / 2
   \<and> updateOscillatorsIncremental exampleHeader 7 [0]
        (examplePoint (canvasLeft fullEngine)
           (frequencyToCanvasY fullEngine (targetFrequency (oscillatorStates fullEngine ! 0))) (1 / 2))
        fullEngine = fullEngine"
proof -
  have r: "0 < INFLUENCE_RADIUS exampleHeader" by (simp add: exampleHeader_def)
  have d: "calculateDistance fullEngine 0
        (canvasLeft fullEngine, frequencyToCanvasY fullEngine (targetFrequency (oscillatorStates fullEngine ! 0)))
      = 100"
    by (simp add: calculateDistance_at_left_edge fullEngine_canvasLeft)
  have no: "\<not> shouldAllocateNewOscillator fullEngine
        (examplePoint (canvasLeft fullEngine)
           (frequencyToCanvasY fullEngine (targetFrequency (oscillatorStates fullEngine ! 0))) (1 / 2))"
    by (simp add: shouldAllocateNewOscillator_def fullEngine_def examplePoint_def)
  have act: "isActive (oscillatorStates fullEngine ! 0)"
    by (simp add: fullEngine_def isActive_def soundingState_def)
  from calculateInfluence_off_centre[OF r, of 100] d calculateDistance_spec_at_left_edge[of fullEngine 0]
    calculateInfluence_half fullEngine_skips[of 7] no act
  show ?thesis by (simp add: fullEngine_canvasLeft)
qed

subsection \<open>Preparing to play\<close>

lemma prepareToPlay_general:
  assumes wf: "wellFormed K s"
  shows "getFrontBuffer (prepareToPlay K sr n s) = replicate (MAX_OSCILLATORS K) (defaultOscillator K)
       \<and> getBackBuffer (prepareToPlay K sr n s) = replicate (MAX_OSCILLATORS K) (defaultOscillator K)
       \<and> activeOscillators (prepareToPlay K sr n s) = 0
       \<and> currentValue (masterGain (prepareToPlay K sr n s)) = 7 / 10
       \<and> targetValue (masterGain (prepareToPlay K sr n s)) = 7 / 10
       \<and> sampleRate (prepareToPlay K sr n s) = sr
       \<and> samplesPerBlock (prepareToPlay K sr n s) = n
       \<and> oscillatorStates (prepareToPlay K sr n s) = oscillatorStates s
       \<and> freeOscillatorIndices (prepareToPlay K sr n s) = freeOscillatorIndices s
       \<and> prepareToPlay K sr n (prepareToPlay K sr n s) = prepareToPlay K sr n s
       \<and> prepareToPlay K sr' n' (prepareToPlay K sr n s) = prepareToPlay K sr' n' s"
proof -
  have i: "frontBufferIndex s < length (oscillatorPools s)" "backBufferIndex s < length (oscillatorPools s)"
    using wf by (simp_all add: wellFormed_def)
  have fl: "length (oscillatorPools s ! frontBufferIndex s) = MAX_OSCILLATORS K"
    using wellFormed_front_length[OF wf] by (simp add: getFrontBuffer_def)
  have bl: "length (oscillatorPools s ! backBufferIndex s) = MAX_OSCILLATORS K"
    using wellFormed_back_length[OF wf] by (simp add: getBackBuffer_def)
  have f: "getFrontBuffer (prepareToPlay K sr n s) = replicate (MAX_OSCILLATORS K) (defaultOscillator K)"
    using i fl by (simp add: prepareToPlay_def getFrontBuffer_def map_replicate_const)
  have b: "getBackBuffer (prepareToPlay K sr n s) = replicate (MAX_OSCILLATORS K) (defaultOscillator K)"
    using i bl by (simp add: prepareToPlay_def getBackBuffer_def map_replicate_const)
  have again: "\<And>sr' n'. prepareToPlay K sr' n' (prepareToPlay K sr n s) = prepareToPlay K sr' n' s"
    by (simp add: prepareToPlay_def setCurrentAndTargetValue_def smoothedReset_def comp_def)
  show ?thesis using f b again by (simp add: prepareToPlay_def setCurrentAndTargetValue_def)
qed
lemma paintedEngine_reach:
  "paintedEngine = runCalls exampleHeader [UpdateOscillatorsIncremental 0 [] (examplePoint 0 0 1)]
                     (PaintEngine_init exampleHeader)"
  by (simp add: paintedEngine_def runCalls_def)

lemma paintedEngine_pool:
  "freeOscillatorIndices paintedEngine = [0]"
  "oscillatorStates paintedEngine ! 0 = defaultOscillatorState"
  "envelopePhase (oscillatorStates paintedEngine ! 1) = Attack"
  "inUse (oscillatorStates paintedEngine ! 1)"
proof -
  have a: "allocateOscillator exampleHeader (PaintEngine_init exampleHeader)
           = (1, (PaintEngine_init exampleHeader)\<lparr>freeOscillatorIndices := [0]\<rparr>)"
    by (simp add: allocateOscillator_def init_example_pool)
  have e: "paintedEngine = activateOscillator exampleHeader 0 1
             (strokePointToAudioParams (PaintEngine_init exampleHeader) (examplePoint 0 0 1))
             ((PaintEngine_init exampleHeader)\<lparr>freeOscillatorIndices := [0]\<rparr>)"
    by (simp add: paintedEngine_def updateOscillatorsIncremental_def Let_def a)
  show "freeOscillatorIndices paintedEngine = [0]"
    by (simp add: e activateOscillator_free)
  show "oscillatorStates paintedEngine ! 0 = defaultOscillatorState"
    by (simp add: e activateOscillator_states exampleHeader_max init_example_pool)
  show "envelopePhase (oscillatorStates paintedEngine ! 1) = Attack"
    by (simp add: e activateOscillator_states exampleHeader_max init_example_pool activate_def)
  show "inUse (oscillatorStates paintedEngine ! 1)"
    by (simp add: e activateOscillator_states exampleHeader_max init_example_pool activate_def)
qed

lemma slotStep_attack: "envelopePhase st = Attack \<Longrightarrow> isActive (slotStep K sr now st)"
  by (simp add: slotStep_def isActive_def updateEnvelope_def Let_def)

lemma activePaintedEngine_eq: "activePaintedEngine = paintedEngine\<lparr>engineIsActive := True\<rparr>"
  by (simp add: activePaintedEngine_def runCalls_def paintedEngine_def)

text \<open>
  C6, amended. In every state that a sequence of calls reaches from the constructed
  engine, \<^verbatim>\<open>prepareToPlay\<close> assigns the default oscillator to every slot of both
  pools, stores an active count of zero, sets the master gain to 0.7 and stores the
  sample rate and block size. The oscillator states and the free list are left as they
  are. A second call with the same arguments changes nothing, and a call after another
  gives what it gives alone. When the default oscillator has amplitude and target
  amplitude zero and the sample rate passed is positive, the block rendered next is
  silent.
\<close>

theorem prepareToPlay_resets_pools:
  assumes reach: "s = runCalls K calls (PaintEngine_init K)"
  shows "getFrontBuffer (prepareToPlay K sr n s) = replicate (MAX_OSCILLATORS K) (defaultOscillator K)
       \<and> getBackBuffer (prepareToPlay K sr n s) = replicate (MAX_OSCILLATORS K) (defaultOscillator K)
       \<and> activeOscillators (prepareToPlay K sr n s) = 0
       \<and> currentValue (masterGain (prepareToPlay K sr n s)) = 7 / 10
       \<and> targetValue (masterGain (prepareToPlay K sr n s)) = 7 / 10
       \<and> sampleRate (prepareToPlay K sr n s) = sr
       \<and> samplesPerBlock (prepareToPlay K sr n s) = n
       \<and> oscillatorStates (prepareToPlay K sr n s) = oscillatorStates s
       \<and> freeOscillatorIndices (prepareToPlay K sr n s) = freeOscillatorIndices s
       \<and> prepareToPlay K sr n (prepareToPlay K sr n s) = prepareToPlay K sr n s
       \<and> prepareToPlay K sr' n' (prepareToPlay K sr n s) = prepareToPlay K sr' n' s
       \<and> (amplitude (defaultOscillator K) = 0 \<and> oscTargetAmplitude (defaultOscillator K) = 0 \<and> 0 < sr \<longrightarrow>
            snd (processBlock K now numSamples numChannels (prepareToPlay K sr n s))
              = (replicate numSamples 0, replicate numSamples 0))"
proof -
  have wf: "wellFormed K s" unfolding reach by (rule wellFormed_reachable)
  have wfp: "wellFormed K (prepareToPlay K sr n s)" using wf by (rule wellFormed_prepareToPlay)
  have quiet: "snd (processBlock K now numSamples numChannels (prepareToPlay K sr n s))
              = (replicate numSamples 0, replicate numSamples 0)"
    if "amplitude (defaultOscillator K) = 0 \<and> oscTargetAmplitude (defaultOscillator K) = 0 \<and> 0 < sr"
    using processBlock_quiet[OF wfp prepareToPlay_quiet[OF wf]] that by simp
  from prepareToPlay_general[OF wf, of sr n sr' n'] quiet show ?thesis by blast
qed

theorem prepareToPlay_resets_pools_witness:
  "activePaintedEngine
     = runCalls exampleHeader [UpdateOscillatorsIncremental 0 [] (examplePoint 0 0 1), SetActive True]
         (PaintEngine_init exampleHeader)
   \<and> amplitude (defaultOscillator exampleHeader) = 0
   \<and> oscTargetAmplitude (defaultOscillator exampleHeader) = 0
   \<and> (0::real) < 44100
   \<and> engineIsActive (prepareToPlay exampleHeader 44100 512 activePaintedEngine)
   \<and> isActive (oscillatorStates (prepareToPlay exampleHeader 44100 512 activePaintedEngine) ! 1)
   \<and> getFrontBuffer (prepareToPlay exampleHeader 44100 512 activePaintedEngine)
       = replicate (MAX_OSCILLATORS exampleHeader) (defaultOscillator exampleHeader)
   \<and> freeOscillatorIndices (prepareToPlay exampleHeader 44100 512 activePaintedEngine)
       = freeOscillatorIndices activePaintedEngine
   \<and> snd (processBlock exampleHeader 0 4 2 (prepareToPlay exampleHeader 44100 512 activePaintedEngine))
       = (replicate 4 0, replicate 4 0)"
proof -
  have d: "amplitude (defaultOscillator exampleHeader) = 0 \<and> oscTargetAmplitude (defaultOscillator exampleHeader) = 0
           \<and> (0::real) < 44100"
    by (simp add: exampleHeader_def)
  have a: "engineIsActive (prepareToPlay exampleHeader 44100 512 activePaintedEngine)"
    by (simp add: prepareToPlay_def activePaintedEngine_eq)
  have b: "isActive (oscillatorStates (prepareToPlay exampleHeader 44100 512 activePaintedEngine) ! 1)"
    using paintedEngine_pool(3) by (simp add: prepareToPlay_def activePaintedEngine_eq isActive_def)
  from prepareToPlay_resets_pools[OF activePaintedEngine_def, of 44100 512 44100 512 0 4 2] d a b
    activePaintedEngine_def
  show ?thesis by blast
qed

text \<open>
  C6, as stated, fails: \<^verbatim>\<open>prepareToPlay\<close> resets the oscillators of the pools, not the
  oscillator states and not the free list. After one stroke point has allocated slot 1,
  \<^verbatim>\<open>prepareToPlay\<close> leaves index 1 off the free list and its state in use and in
  Attack, and the next pass of the sample loop finds the slot active.
\<close>

theorem prepareToPlay_counterexample:
  "freeOscillatorIndices (prepareToPlay exampleHeader 44100 512 paintedEngine) = [0]
   \<and> inUse (oscillatorStates (prepareToPlay exampleHeader 44100 512 paintedEngine) ! 1)
   \<and> envelopePhase (oscillatorStates (prepareToPlay exampleHeader 44100 512 paintedEngine) ! 1) = Attack
   \<and> oscillatorStates (prepareToPlay exampleHeader 44100 512 paintedEngine) ! 1 \<noteq> defaultOscillatorState
   \<and> isActive (oscillatorStates (fst (processSample exampleHeader 0 True 0
          (prepareToPlay exampleHeader 44100 512 paintedEngine))) ! 1)"
proof -
  let ?p = "prepareToPlay exampleHeader 44100 512 paintedEngine"
  have wf: "wellFormed exampleHeader paintedEngine"
    unfolding paintedEngine_reach by (rule wellFormed_reachable)
  have wfp: "wellFormed exampleHeader ?p" using wf by (rule wellFormed_prepareToPlay)
  have st: "oscillatorStates ?p = oscillatorStates paintedEngine"
    and fr: "freeOscillatorIndices ?p = freeOscillatorIndices paintedEngine"
    and sr: "sampleRate ?p = 44100"
    by (simp_all add: prepareToPlay_def)
  have i1: "1 < MAX_OSCILLATORS exampleHeader" by (simp add: exampleHeader_max)
  have ne: "oscillatorStates ?p ! 1 \<noteq> defaultOscillatorState"
  proof
    assume "oscillatorStates ?p ! 1 = defaultOscillatorState"
    then have "inUse (oscillatorStates paintedEngine ! 1) = inUse defaultOscillatorState" by (simp add: st)
    then show False using paintedEngine_pool(4) by (simp add: defaultOscillatorState_def)
  qed
  have st1: "oscillatorStates (fst (processSample exampleHeader 0 True 0 ?p)) ! 1
             = slotStep exampleHeader 44100 0 (oscillatorStates paintedEngine ! 1)"
    using processSample_states[OF wfp i1, of 0 True 0] by (simp add: st sr)
  have act: "isActive (oscillatorStates (fst (processSample exampleHeader 0 True 0 ?p)) ! 1)"
    unfolding st1 using paintedEngine_pool(3) by (rule slotStep_attack)
  show ?thesis using ne act paintedEngine_pool by (simp add: st fr)
qed

subsection \<open>Clearing a painted canvas\<close>























subsection \<open>Time stamps\<close>

lemma stampsInRange_update:
  "stampsInRange s \<Longrightarrow> lastUsedTime st < FLT_MAX \<Longrightarrow> oscillatorStates s' = (oscillatorStates s)[i := st]
   \<Longrightarrow> stampsInRange s'"
  by (simp add: stampsInRange_def list_all_list_update)

lemma stampsInRange_frame:
  "oscillatorStates s' = oscillatorStates s \<Longrightarrow> stampsInRange s' = stampsInRange s"
  by (simp add: stampsInRange_def)

lemma stampsInRange_nth:
  "stampsInRange s \<Longrightarrow> i < length (oscillatorStates s) \<Longrightarrow> lastUsedTime (oscillatorStates s ! i) < FLT_MAX"
  by (simp add: stampsInRange_def list_all_length)

lemma stampsInRange_init: "stampsInRange (PaintEngine_init K)"
  by (simp add: stampsInRange_def init_pool list_all_length defaultOscillatorState_def FLT_MAX_def)

lemma stampsInRange_activate:
  assumes "stampsInRange s" "now < FLT_MAX"
  shows "stampsInRange (activateOscillator K now index params s)"
proof (cases "index < 0 \<or> index \<ge> int (MAX_OSCILLATORS K)")
  case True
  then show ?thesis using assms by (simp add: activateOscillator_def)
next
  case False
  then have idx: "0 \<le> index" "index < int (MAX_OSCILLATORS K)" by auto
  show ?thesis
    by (rule stampsInRange_update[OF assms(1) _ activateOscillator_states[OF idx]]) (simp add: assms(2))
qed

lemma stampsInRange_allocate: "stampsInRange (snd (allocateOscillator K s)) = stampsInRange s"
  by (rule stampsInRange_frame) (simp add: allocateOscillator_def)

lemma stampsInRange_influence:
  assumes "stampsInRange s" "now < FLT_MAX"
  shows "stampsInRange (updateOscillatorWithInfluence K now idx pt params s)"
  using influence_states[of K now idx pt params s]
proof
  assume "oscillatorStates (updateOscillatorWithInfluence K now idx pt params s) = oscillatorStates s"
  then show ?thesis using assms(1) by (simp add: stampsInRange_def)
next
  assume "\<exists>f a p. oscillatorStates (updateOscillatorWithInfluence K now idx pt params s) =
         (oscillatorStates s)[nat idx := (oscillatorStates s ! nat idx)
            \<lparr>targetFrequency := jlimit 20 20000 f, targetAmplitude := jlimit 0 1 a,
             targetPan := jlimit 0 1 p, lastUsedTime := now\<rparr>]"
  then obtain f a p where e: "oscillatorStates (updateOscillatorWithInfluence K now idx pt params s) =
         (oscillatorStates s)[nat idx := (oscillatorStates s ! nat idx)
            \<lparr>targetFrequency := jlimit 20 20000 f, targetAmplitude := jlimit 0 1 a,
             targetPan := jlimit 0 1 p, lastUsedTime := now\<rparr>]" by blast
  show ?thesis by (rule stampsInRange_update[OF assms(1) _ e]) (simp add: assms(2))
qed

lemma stampsInRange_influence_fold:
  "stampsInRange s \<Longrightarrow> now < FLT_MAX \<Longrightarrow>
   stampsInRange (fold (\<lambda>oscIndex. updateOscillatorWithInfluence K now oscIndex pt params) nearby s)"
  by (induction nearby arbitrary: s) (simp_all add: stampsInRange_influence)

lemma stampsInRange_incremental:
  assumes "stampsInRange s" "now < FLT_MAX"
  shows "stampsInRange (updateOscillatorsIncremental K now nearby pt s)"
proof -
  obtain index s1 where a: "allocateOscillator K s = (index, s1)" by (cases "allocateOscillator K s") auto
  have s1: "stampsInRange s1" using stampsInRange_allocate[of K s] assms(1) a by simp
  have act: "stampsInRange (activateOscillator K now index (strokePointToAudioParams s pt) s1)"
    using s1 assms(2) by (rule stampsInRange_activate)
  show ?thesis
    using assms s1 act by (simp add: updateOscillatorsIncremental_def Let_def stampsInRange_influence_fold a)
qed

lemma slotStep_stamp:
  "lastUsedTime st < FLT_MAX \<Longrightarrow> now < FLT_MAX \<Longrightarrow> lastUsedTime (slotStep K sr now st) < FLT_MAX"
  by (simp add: slotStep_def)

lemma stampsInRange_processSlot:
  assumes "stampsInRange s" "now < FLT_MAX" "i < length (oscillatorStates s)"
  shows "stampsInRange (fst (processSlot K now hr i (s, l, r, c)))"
  by (rule stampsInRange_update[OF assms(1) _ processSlot_states])
     (simp add: slotStep_stamp stampsInRange_nth assms)

lemma stampsInRange_slots:
  assumes "wellFormed K (fst acc)" "stampsInRange (fst acc)" "now < FLT_MAX" "\<forall>i \<in> set is. i < MAX_OSCILLATORS K"
  shows "stampsInRange (fst (fold (processSlot K now hr) is acc))"
  using assms
proof (induction "is" arbitrary: acc)
  case Nil
  then show ?case by simp
next
  case (Cons i "is")
  obtain s l r c where acc: "acc = (s, l, r, c)" by (cases acc) auto
  let ?a1 = "processSlot K now hr i (s, l, r, c)"
  have wf: "wellFormed K s" and st: "stampsInRange s"
    and i: "i < MAX_OSCILLATORS K" and rest: "\<forall>i \<in> set is. i < MAX_OSCILLATORS K"
    using Cons.prems by (simp_all add: acc)
  have len: "i < length (oscillatorStates s)" using wf i by (simp add: wellFormed_def)
  have wf1: "wellFormed K (fst ?a1)" using wf by (rule wellFormed_processSlot)
  have st1: "stampsInRange (fst ?a1)" using st Cons.prems(3) len by (rule stampsInRange_processSlot)
  from Cons.IH[OF wf1 st1 Cons.prems(3) rest] show ?case unfolding acc by simp
qed

lemma stampsInRange_processSample:
  assumes "wellFormed K s" "stampsInRange s" "now < FLT_MAX"
  shows "stampsInRange (fst (processSample K now hr sample s))"
proof -
  have "stampsInRange (fst (fold (processSlot K now hr) [0..<MAX_OSCILLATORS K] (s, 0, 0, 0)))"
    using assms by (intro stampsInRange_slots) simp_all
  then show ?thesis by (simp add: stampsInRange_def processSample_pool)
qed

lemma stampsInRange_sampleLoop:
  "wellFormed K s \<Longrightarrow> stampsInRange s \<Longrightarrow> now < FLT_MAX \<Longrightarrow>
   stampsInRange (fst (sampleLoop K now hr samples s))"
proof (induction samples arbitrary: s)
  case Nil
  then show ?case by simp
next
  case (Cons sample samples)
  have "wellFormed K (fst (processSample K now hr sample s))"
    using Cons.prems(1) by (rule wellFormed_processSample)
  moreover have "stampsInRange (fst (processSample K now hr sample s))"
    using Cons.prems by (rule stampsInRange_processSample)
  ultimately have "stampsInRange (fst (sampleLoop K now hr samples (fst (processSample K now hr sample s))))"
    using Cons.prems(3) by (rule Cons.IH)
  then show ?case by (simp only: sampleLoop_fst)
qed

lemma stampsInRange_processBlock:
  assumes "wellFormed K s" "stampsInRange s" "now < FLT_MAX"
  shows "stampsInRange (fst (processBlock K now numSamples numChannels s))"
proof (cases "engineIsActive s")
  case False
  then show ?thesis using assms(2) by (simp add: processBlock_def)
next
  case True
  have "stampsInRange (swapBuffersIfPending s)" using assms(2) by (simp add: stampsInRange_def swap_pool)
  then have "stampsInRange (fst (sampleLoop K now (numChannels > 1) [0..<numSamples] (swapBuffersIfPending s)))"
    using wellFormed_swap[OF assms(1)] assms(3) by (intro stampsInRange_sampleLoop) simp_all
  then show ?thesis using True by (simp add: stampsInRange_def processBlock_pool)
qed

lemma stampsInRange_applyCall:
  assumes wf: "wellFormed K s" and st: "stampsInRange s" and clk: "clockInRange c"
  shows "stampsInRange (applyCall K c s)"
proof (cases c)
  case AllocateOscillator
  then show ?thesis using st by (simp add: stampsInRange_allocate)
next
  case (ActivateOscillator now index params)
  then show ?thesis using st clk by (simp add: stampsInRange_activate)
next
  case (UpdateOscillatorsIncremental now nearby pt)
  then show ?thesis using st clk by (simp add: stampsInRange_incremental)
next
  case (BeginStroke pt)
  then show ?thesis using st by (simp add: stampsInRange_def beginStroke_frame)
next
  case (UpdateStroke now nearby pos p)
  have "stampsInRange (updateStroke K now nearby pos p s)"
  proof (cases "currentStroke s")
    case None
    then show ?thesis using st by (simp add: updateStroke_def stampsInRange_def beginStroke_frame)
  next
    case (Some stroke)
    let ?s1 = "s\<lparr>currentStroke := Some (stroke\<lparr>points := points stroke @
           [\<lparr>position = pos, pressure = p, colorIsTransparentBlack = False, colorHue = 0\<rparr>]\<rparr>)\<rparr>"
    have st1: "stampsInRange ?s1" using st by (simp add: stampsInRange_def)
    have "now < FLT_MAX" using clk UpdateStroke by simp
    from stampsInRange_incremental[OF st1 this] Some show ?thesis
      by (simp add: updateStroke_def Let_def)
  qed
  then show ?thesis using UpdateStroke by simp
next
  case EndStroke
  then show ?thesis using st by (simp add: stampsInRange_def endStroke_frame)
next
  case (ReleaseOscillator index)
  have "stampsInRange (releaseOscillator K index s)"
  proof (cases "index < 0 \<or> index \<ge> int (MAX_OSCILLATORS K)")
    case True
    then show ?thesis using st by (simp add: releaseOscillator_def)
  next
    case False
    then have "nat index < MAX_OSCILLATORS K" by linarith
    then have i: "nat index < length (oscillatorStates s)" using wf by (simp add: wellFormed_def)
    have e: "oscillatorStates (releaseOscillator K index s)
          = (oscillatorStates s)[nat index := release (oscillatorStates s ! nat index)]"
      using False by (simp add: releaseOscillator_def Let_def)
    have "lastUsedTime (release (oscillatorStates s ! nat index)) < FLT_MAX"
      using stampsInRange_nth[OF st i] by (simp add: release_def)
    with st show ?thesis using e by (rule stampsInRange_update)
  qed
  then show ?thesis using ReleaseOscillator by simp
next
  case (ProcessSample now hr sample)
  then show ?thesis using wf st clk by (simp add: stampsInRange_processSample)
next
  case (ProcessBlock now numSamples numChannels)
  then show ?thesis using wf st clk by (simp add: stampsInRange_processBlock)
next
  case (PrepareToPlay sr n)
  then show ?thesis using st by (simp add: stampsInRange_def prepareToPlay_def)
next
  case ReleaseResources
  then show ?thesis using st by (simp add: stampsInRange_def releaseResources_def)
next
  case ClearCanvas
  then show ?thesis using st by (simp add: stampsInRange_def clearCanvas_eq)
next
  case (SetFrequencyRange a b)
  then show ?thesis using st by (simp add: stampsInRange_def setFrequencyRange_frame)
next
  case (SetCanvasRegion a b c d)
  then show ?thesis using st by (simp add: stampsInRange_def setCanvasRegion_def)
next
  case (SetActive b)
  then show ?thesis using st by (simp add: stampsInRange_def)
qed

lemma stampsInRange_fold:
  "wellFormed K s \<Longrightarrow> stampsInRange s \<Longrightarrow> list_all clockInRange calls \<Longrightarrow>
   stampsInRange (fold (applyCall K) calls s)"
proof (induction calls arbitrary: s)
  case Nil
  then show ?case by simp
next
  case (Cons c calls)
  have "wellFormed K (applyCall K c s)" using Cons.prems(1) by (rule wellFormed_applyCall)
  moreover have "stampsInRange (applyCall K c s)"
    using Cons.prems by (intro stampsInRange_applyCall) simp_all
  ultimately show ?case using Cons.IH Cons.prems(3) by simp
qed

text \<open>
  The three hypotheses of the allocation policy hold in every state that engine-level
  calls with clock readings below \<^verbatim>\<open>FLT_MAX\<close> reach from the constructed engine.
\<close>

lemma policy_hypotheses_reachable:
  assumes "list_all isEngineLevel calls" "list_all clockInRange calls"
  shows "length (oscillatorStates (runCalls K calls (PaintEngine_init K))) = MAX_OSCILLATORS K
       \<and> list_all (\<lambda>j. 0 \<le> j \<and> j < int (MAX_OSCILLATORS K))
            (freeOscillatorIndices (runCalls K calls (PaintEngine_init K)))
       \<and> list_all (\<lambda>st. lastUsedTime st < FLT_MAX) (oscillatorStates (runCalls K calls (PaintEngine_init K)))"
proof -
  have wf: "wellFormed K (runCalls K calls (PaintEngine_init K))" by (rule wellFormed_reachable)
  have pp: "poolPartition K (runCalls K calls (PaintEngine_init K))"
    unfolding runCalls_def using assms(1) by (intro poolPartition_fold wellFormed_init poolPartition_init)
  have st: "stampsInRange (runCalls K calls (PaintEngine_init K))"
    unfolding runCalls_def using assms(2) by (intro stampsInRange_fold wellFormed_init stampsInRange_init)
  from wf pp st show ?thesis
    by (simp add: wellFormed_def poolPartition_def stampsInRange_def)
qed

subsection \<open>The region map\<close>

text \<open>
  For a positive region size \<open>R\<close>, the canvas points \<open>(R/2, -R/2)\<close> and \<open>(-R/2, -R/2)\<close>
  lie in the regions \<open>(0, -1)\<close> and \<open>(-1, -1)\<close>. Both lookups return the key \<open>-1\<close>, and
  the second finds the entry of the first and changes nothing.
\<close>

lemma getOrCreateRegion_merges_any_size:
  assumes r: "0 < REGION_SIZE K"
  shows "fst (getOrCreateRegion K (REGION_SIZE K / 2) (- REGION_SIZE K / 2) s) = - 1
       \<and> getOrCreateRegion K (- REGION_SIZE K / 2) (- REGION_SIZE K / 2)
            (snd (getOrCreateRegion K (REGION_SIZE K / 2) (- REGION_SIZE K / 2) s))
          = (- 1, snd (getOrCreateRegion K (REGION_SIZE K / 2) (- REGION_SIZE K / 2) s))"
proof -
  have h: "REGION_SIZE K / 2 / REGION_SIZE K = 1 / 2" "- REGION_SIZE K / 2 / REGION_SIZE K = - 1 / 2"
    using r by simp_all
  have f: "\<lfloor>(1::real) / 2\<rfloor> = 0" "\<lfloor>- (1::real) / 2\<rfloor> = - 1" by (simp_all add: floor_eq_iff)
  have k: "getRegionKey 0 (- 1) = - 1" "getRegionKey (- 1) (- 1) = - 1"
    by (simp_all add: getRegionKey_def)
  show ?thesis
    unfolding getOrCreateRegion_def Let_def h f
    by (cases "canvasRegions s (- 1)") (simp_all add: k)
qed

subsection \<open>Frequencies assigned to oscillators\<close>

text \<open>
  C5, as stated, fails: \<^verbatim>\<open>setFrequencyRange(1, 22000)\<close> is accepted as it is, the
  bottom of the canvas then maps to 1 Hz, and a stroke point there activates an
  oscillator with a target frequency of 1 Hz.
\<close>

theorem frequency_range_counterexample:
  "canvasYToFrequency wideEngine (- 50) = 1
   \<and> targetFrequency
        (oscillatorStates (updateOscillatorsIncremental exampleHeader 0 [] (examplePoint 0 (- 50) 1) wideEngine) ! 1) = 1
   \<and> \<not> (20 \<le> targetFrequency
        (oscillatorStates (updateOscillatorsIncremental exampleHeader 0 [] (examplePoint 0 (- 50) 1) wideEngine) ! 1))"
proof -
  have p: "paramFrequency (strokePointToAudioParams wideEngine (examplePoint 0 (- 50) 1)) = 1"
    by (simp add: strokePointToAudioParams_def examplePoint_def wideEngine_freq)
  have a: "allocateOscillator exampleHeader wideEngine = (1, wideEngine\<lparr>freeOscillatorIndices := [0]\<rparr>)"
    by (simp add: allocateOscillator_def wideEngine_pool)
  have "targetFrequency
        (oscillatorStates (updateOscillatorsIncremental exampleHeader 0 [] (examplePoint 0 (- 50) 1) wideEngine) ! 1) = 1"
    by (simp add: updateOscillatorsIncremental_def Let_def a activateOscillator_states exampleHeader_max
        wideEngine_pool p)
  with wideEngine_freq show ?thesis by simp
qed

lemma getBackBuffer_setBackBuffer:
  "backBufferIndex s < length (oscillatorPools s) \<Longrightarrow> getBackBuffer (setBackBuffer p s) = p"
  by (simp add: getBackBuffer_def setBackBuffer_def)

lemma activateOscillator_frequency:
  assumes wf: "wellFormed K s" and idx: "0 \<le> index" "index < int (MAX_OSCILLATORS K)"
  shows "frequency (getBackBuffer (activateOscillator K now index params s) ! nat index) = paramFrequency params"
proof -
  let ?s1 = "s\<lparr>oscillatorStates := (oscillatorStates s)[nat index :=
        (activate (oscillatorStates s ! nat index))
          \<lparr>targetFrequency := paramFrequency params, targetAmplitude := paramAmplitude params,
           targetPan := paramPan params, lastUsedTime := now\<rparr>]\<rparr>"
  have b: "backBufferIndex ?s1 < length (oscillatorPools ?s1)" using wf by (simp add: wellFormed_def)
  have len: "nat index < length (getBackBuffer ?s1)"
    using wellFormed_back_length[OF wf] idx by (simp add: getBackBuffer_def)
  have "activateOscillator K now index params s
        = setBackBuffer ((getBackBuffer ?s1)[nat index := setParameters params (getBackBuffer ?s1 ! nat index)]) ?s1"
    using idx by (simp add: activateOscillator_def Let_def)
  then have "getBackBuffer (activateOscillator K now index params s)
        = (getBackBuffer ?s1)[nat index := setParameters params (getBackBuffer ?s1 ! nat index)]"
    using getBackBuffer_setBackBuffer[OF b] by simp
  then show ?thesis using len by (simp add: setParameters_def)
qed

lemma influence_backBuffer:
  assumes wf: "wellFormed K s"
  shows "getBackBuffer (updateOscillatorWithInfluence K now idx pt params s) = getBackBuffer s
   \<or> (\<exists>f osc. getBackBuffer (updateOscillatorWithInfluence K now idx pt params s)
         = (getBackBuffer s)[nat idx := osc] \<and> frequency osc = jlimit 20 20000 f)"
proof -
  have b: "backBufferIndex s < length (oscillatorPools s)" using wf by (simp add: wellFormed_def)
  define w where "w = calculateInfluence K (calculateDistance s (nat idx) (position pt)) (pressure pt)"
  define st where "st = oscillatorStates s ! nat idx"
  show ?thesis
  proof (cases "idx < 0 \<or> idx \<ge> int (MAX_OSCILLATORS K) \<or> \<not> isActive st \<or> w < 1 / 100")
    case True
    then have "updateOscillatorWithInfluence K now idx pt params s = s"
      by (auto simp: updateOscillatorWithInfluence_def Let_def w_def st_def)
    then show ?thesis by simp
  next
    case False
    define blended where "blended =
       \<lparr>paramFrequency = jlimit 20 20000 (targetFrequency st * (1 - w) + paramFrequency params * w),
        paramAmplitude = jlimit 0 1 (targetAmplitude st * (1 - w) + paramAmplitude params * w),
        paramPan = jlimit 0 1 (targetPan st * (1 - w) + paramPan params * w),
        paramTime = 0\<rparr>"
    have "getBackBuffer (updateOscillatorWithInfluence K now idx pt params s)
          = (getBackBuffer s)[nat idx := setParameters blended (getBackBuffer s ! nat idx)]"
      using False b
      by (simp add: updateOscillatorWithInfluence_def Let_def w_def st_def blended_def
          getBackBuffer_def setBackBuffer_def)
    moreover have "frequency (setParameters blended (getBackBuffer s ! nat idx))
          = jlimit 20 20000 (targetFrequency st * (1 - w) + paramFrequency params * w)"
      by (simp add: setParameters_def blended_def)
    ultimately show ?thesis by blast
  qed
qed

lemma influence_frequency:
  assumes wf: "wellFormed K s" and j: "j < MAX_OSCILLATORS K"
  shows "frequency (getBackBuffer (updateOscillatorWithInfluence K now idx pt params s) ! j)
           = frequency (getBackBuffer s ! j)
         \<or> (20 \<le> frequency (getBackBuffer (updateOscillatorWithInfluence K now idx pt params s) ! j)
            \<and> frequency (getBackBuffer (updateOscillatorWithInfluence K now idx pt params s) ! j) \<le> 20000)"
proof -
  have b: "\<And>x. 20 \<le> jlimit 20 20000 x \<and> jlimit 20 20000 x \<le> 20000"
    using jlimit_bounds[of 20 20000] by simp
  have len: "j < length (getBackBuffer s)" using wellFormed_back_length[OF wf] j by simp
  from influence_backBuffer[OF wf, of now idx pt params] show ?thesis
  proof
    assume "getBackBuffer (updateOscillatorWithInfluence K now idx pt params s) = getBackBuffer s"
    then show ?thesis by simp
  next
    assume "\<exists>f osc. getBackBuffer (updateOscillatorWithInfluence K now idx pt params s)
         = (getBackBuffer s)[nat idx := osc] \<and> frequency osc = jlimit 20 20000 f"
    then obtain f osc where e: "getBackBuffer (updateOscillatorWithInfluence K now idx pt params s)
         = (getBackBuffer s)[nat idx := osc]" and fr: "frequency osc = jlimit 20 20000 f" by blast
    show ?thesis
    proof (cases "j = nat idx")
      case True
      with len e fr b[of f] show ?thesis by simp
    next
      case False
      with e show ?thesis by simp
    qed
  qed
qed

text \<open>
  C5, amended. On a canvas whose top and bottom differ, in exact arithmetic:
  \<^verbatim>\<open>setFrequencyRange\<close> keeps \<open>1 \<le> minFrequency < maxFrequency \<le> 22000\<close>, and the
  constructor sets the range 20 to 20000. The canvas-Y mapping returns a frequency
  between \<^verbatim>\<open>minFrequency\<close> and \<^verbatim>\<open>maxFrequency\<close>. For a stroke point,
  \<^verbatim>\<open>activateOscillator\<close> stores that frequency as the target frequency of the slot
  and as the frequency of its oscillator in the back buffer, and at a positive sample
  rate the phase increment \<^verbatim>\<open>updatePhase\<close> computes for that oscillator is positive
  and at most \<open>22000 / sampleRate\<close>. \<^verbatim>\<open>updateOscillatorWithInfluence\<close> leaves the
  target frequency of a slot and the frequency of its oscillator as they are, or
  assigns a value between 20 and 20000.
\<close>

theorem frequency_range_amended:
  assumes wf: "wellFormed K s"
    and canvas: "canvasBottom s \<noteq> canvasTop s"
    and idx: "0 \<le> index" "index < int (MAX_OSCILLATORS K)"
    and sr: "0 < sr"
  shows "1 \<le> minFrequency (setFrequencyRange minHz maxHz s)
       \<and> minFrequency (setFrequencyRange minHz maxHz s) < maxFrequency (setFrequencyRange minHz maxHz s)
       \<and> maxFrequency (setFrequencyRange minHz maxHz s) \<le> 22000
       \<and> minFrequency (PaintEngine_init K) = 20 \<and> maxFrequency (PaintEngine_init K) = 20000
       \<and> minFrequency (setFrequencyRange minHz maxHz s) \<le> canvasYToFrequency (setFrequencyRange minHz maxHz s) y
       \<and> canvasYToFrequency (setFrequencyRange minHz maxHz s) y \<le> maxFrequency (setFrequencyRange minHz maxHz s)
       \<and> targetFrequency
            (oscillatorStates
               (activateOscillator K now index
                  (strokePointToAudioParams (setFrequencyRange minHz maxHz s) point)
                  (setFrequencyRange minHz maxHz s)) ! nat index)
           = canvasYToFrequency (setFrequencyRange minHz maxHz s) (snd (position point))
       \<and> frequency
            (getBackBuffer
               (activateOscillator K now index
                  (strokePointToAudioParams (setFrequencyRange minHz maxHz s) point)
                  (setFrequencyRange minHz maxHz s)) ! nat index)
           = canvasYToFrequency (setFrequencyRange minHz maxHz s) (snd (position point))
       \<and> 0 < phaseIncrement (updatePhase sr
            (getBackBuffer
               (activateOscillator K now index
                  (strokePointToAudioParams (setFrequencyRange minHz maxHz s) point)
                  (setFrequencyRange minHz maxHz s)) ! nat index))
       \<and> phaseIncrement (updatePhase sr
            (getBackBuffer
               (activateOscillator K now index
                  (strokePointToAudioParams (setFrequencyRange minHz maxHz s) point)
                  (setFrequencyRange minHz maxHz s)) ! nat index)) \<le> 22000 / sr
       \<and> (\<forall>j < MAX_OSCILLATORS K.
             targetFrequency (oscillatorStates (updateOscillatorWithInfluence K now idx' pt params s) ! j)
               = targetFrequency (oscillatorStates s ! j)
             \<or> (20 \<le> targetFrequency (oscillatorStates (updateOscillatorWithInfluence K now idx' pt params s) ! j)
                \<and> targetFrequency (oscillatorStates (updateOscillatorWithInfluence K now idx' pt params s) ! j)
                     \<le> 20000))
       \<and> (\<forall>j < MAX_OSCILLATORS K.
             frequency (getBackBuffer (updateOscillatorWithInfluence K now idx' pt params s) ! j)
               = frequency (getBackBuffer s ! j)
             \<or> (20 \<le> frequency (getBackBuffer (updateOscillatorWithInfluence K now idx' pt params s) ! j)
                \<and> frequency (getBackBuffer (updateOscillatorWithInfluence K now idx' pt params s) ! j)
                     \<le> 20000))"
proof -
  let ?s = "setFrequencyRange minHz maxHz s"
  let ?a = "activateOscillator K now index (strokePointToAudioParams ?s point) ?s"
  note r = setFrequencyRange_range[of minHz maxHz s]
  have r1: "1 \<le> minFrequency ?s" "minFrequency ?s < maxFrequency ?s" "maxFrequency ?s \<le> 22000"
    using r by linarith+
  have pos: "0 < minFrequency ?s" using r1(1) by linarith
  have c: "minFrequency ?s \<le> canvasYToFrequency ?s y \<and> canvasYToFrequency ?s y \<le> maxFrequency ?s" for y
    using canvasYToFrequency_bounds[OF pos less_imp_le[OF r1(2)]] .
  have wf': "wellFormed K ?s" using wf by (simp add: wellFormed_def setFrequencyRange_frame)
  have len: "length (oscillatorStates s) = MAX_OSCILLATORS K" using wf by (simp add: wellFormed_def)
  have len': "length (oscillatorStates ?s) = MAX_OSCILLATORS K"
    using len by (simp add: setFrequencyRange_frame)
  have act: "targetFrequency (oscillatorStates ?a ! nat index) = canvasYToFrequency ?s (snd (position point))"
    using activateOscillator_targetFrequency[OF idx len'] by (simp add: strokePointToAudioParams_def)
  have fr: "frequency (getBackBuffer ?a ! nat index) = canvasYToFrequency ?s (snd (position point))"
    using activateOscillator_frequency[OF wf' idx] by (simp add: strokePointToAudioParams_def)
  have f1: "1 \<le> frequency (getBackBuffer ?a ! nat index)" "frequency (getBackBuffer ?a ! nat index) \<le> 22000"
    using c[of "snd (position point)"] r1 by (simp_all add: fr)
  note inc = updatePhase_increment[OF sr f1]
  have infl: "\<forall>j < MAX_OSCILLATORS K.
             targetFrequency (oscillatorStates (updateOscillatorWithInfluence K now idx' pt params s) ! j)
               = targetFrequency (oscillatorStates s ! j)
             \<or> (20 \<le> targetFrequency (oscillatorStates (updateOscillatorWithInfluence K now idx' pt params s) ! j)
                \<and> targetFrequency (oscillatorStates (updateOscillatorWithInfluence K now idx' pt params s) ! j)
                     \<le> 20000)"
    using influence_targetFrequency[of _ s K now idx' pt params] len by simp
  have inflf: "\<forall>j < MAX_OSCILLATORS K.
             frequency (getBackBuffer (updateOscillatorWithInfluence K now idx' pt params s) ! j)
               = frequency (getBackBuffer s ! j)
             \<or> (20 \<le> frequency (getBackBuffer (updateOscillatorWithInfluence K now idx' pt params s) ! j)
                \<and> frequency (getBackBuffer (updateOscillatorWithInfluence K now idx' pt params s) ! j)
                     \<le> 20000)"
    using influence_frequency[OF wf, of _ now idx' pt params] by simp
  from r1 init_range[of K] c[of y] act fr inc infl inflf show ?thesis by blast
qed

theorem frequency_range_amended_witness:
  "wellFormed exampleHeader (PaintEngine_init exampleHeader)
   \<and> canvasBottom (PaintEngine_init exampleHeader) \<noteq> canvasTop (PaintEngine_init exampleHeader)
   \<and> (0::int) \<le> 1 \<and> 1 < int (MAX_OSCILLATORS exampleHeader)
   \<and> (0::real) < 44100
   \<and> 1 \<le> minFrequency (setFrequencyRange 5 30000 (PaintEngine_init exampleHeader))
   \<and> maxFrequency (setFrequencyRange 5 30000 (PaintEngine_init exampleHeader)) \<le> 22000
   \<and> minFrequency (setFrequencyRange 5 30000 (PaintEngine_init exampleHeader))
        \<le> canvasYToFrequency (setFrequencyRange 5 30000 (PaintEngine_init exampleHeader)) 10
   \<and> canvasYToFrequency (setFrequencyRange 5 30000 (PaintEngine_init exampleHeader)) 10
        \<le> maxFrequency (setFrequencyRange 5 30000 (PaintEngine_init exampleHeader))
   \<and> frequency
        (getBackBuffer
           (activateOscillator exampleHeader 0 1
              (strokePointToAudioParams (setFrequencyRange 5 30000 (PaintEngine_init exampleHeader))
                 (examplePoint 0 10 1))
              (setFrequencyRange 5 30000 (PaintEngine_init exampleHeader))) ! nat 1)
       = canvasYToFrequency (setFrequencyRange 5 30000 (PaintEngine_init exampleHeader))
           (snd (position (examplePoint 0 10 1)))
   \<and> phaseIncrement (updatePhase 44100
        (getBackBuffer
           (activateOscillator exampleHeader 0 1
              (strokePointToAudioParams (setFrequencyRange 5 30000 (PaintEngine_init exampleHeader))
                 (examplePoint 0 10 1))
              (setFrequencyRange 5 30000 (PaintEngine_init exampleHeader))) ! nat 1)) \<le> 22000 / 44100"
proof -
  have h0: "wellFormed exampleHeader (PaintEngine_init exampleHeader)" by (rule wellFormed_init)
  have h1: "canvasBottom (PaintEngine_init exampleHeader) \<noteq> canvasTop (PaintEngine_init exampleHeader)"
    by (simp add: init_canvas)
  have h2: "(0::int) \<le> 1" by simp
  have h3: "1 < int (MAX_OSCILLATORS exampleHeader)" by (simp add: exampleHeader_def)
  have h4: "(0::real) < 44100" by simp
  from frequency_range_amended[OF h0 h1 h2 h3 h4, of 5 30000 10 0 "examplePoint 0 10 1"] h0 h1 h2 h3 h4
  show ?thesis by blast
qed

end
